theory Spec2Isabelle
  imports Main "HOL-Library.Sublist" "HOL-Library.Code_Target_Numeral"
begin

section \<open>Strings as the scraper uses them\<close>

text \<open>
  A JavaScript string is modelled as a HOL \<open>string\<close>: a list of code units, here
  restricted to the range a \<open>char\<close> can hold, U+0000 to U+00FF. \<open>length\<close> is the \<open>.length\<close>
  of the source.
\<close>

definition upper_letters :: string where
  \<comment> \<open>the code units of that range that \<open>toLowerCase\<close> changes: A to Z, and the capital letters
      U+00C0 to U+00DE but for the multiplication sign U+00D7\<close>
  "upper_letters = ''ABCDEFGHIJKLMNOPQRSTUVWXYZ'' @
     [
      CHR 0xC0, CHR 0xC1, CHR 0xC2, CHR 0xC3, CHR 0xC4, CHR 0xC5, CHR 0xC6, CHR 0xC7,
      CHR 0xC8, CHR 0xC9, CHR 0xCA, CHR 0xCB, CHR 0xCC, CHR 0xCD, CHR 0xCE, CHR 0xCF,
      CHR 0xD0, CHR 0xD1, CHR 0xD2, CHR 0xD3, CHR 0xD4, CHR 0xD5, CHR 0xD6, CHR 0xD8,
      CHR 0xD9, CHR 0xDA, CHR 0xDB, CHR 0xDC, CHR 0xDD, CHR 0xDE]"

definition lower_letters :: string where
  \<comment> \<open>what they become: each is 32 further on\<close>
  "lower_letters = ''abcdefghijklmnopqrstuvwxyz'' @
     [
      CHR 0xE0, CHR 0xE1, CHR 0xE2, CHR 0xE3, CHR 0xE4, CHR 0xE5, CHR 0xE6, CHR 0xE7,
      CHR 0xE8, CHR 0xE9, CHR 0xEA, CHR 0xEB, CHR 0xEC, CHR 0xED, CHR 0xEE, CHR 0xEF,
      CHR 0xF0, CHR 0xF1, CHR 0xF2, CHR 0xF3, CHR 0xF4, CHR 0xF5, CHR 0xF6, CHR 0xF8,
      CHR 0xF9, CHR 0xFA, CHR 0xFB, CHR 0xFC, CHR 0xFD, CHR 0xFE]"

definition lower_char :: "char \<Rightarrow> char" where
  "lower_char c = (case map_of (zip upper_letters lower_letters) c of Some d \<Rightarrow> d | None \<Rightarrow> c)"

definition toLowerCase :: "string \<Rightarrow> string" where
  "toLowerCase s = map lower_char s"

definition startsWith :: "string \<Rightarrow> string \<Rightarrow> bool" where
  \<comment> \<open>\<open>s.startsWith(p)\<close>\<close>
  "startsWith s p = prefix p s"

definition endsWith :: "string \<Rightarrow> string \<Rightarrow> bool" where
  \<comment> \<open>\<open>s.endsWith(p)\<close>\<close>
  "endsWith s p = suffix p s"

definition str_includes :: "string \<Rightarrow> string \<Rightarrow> bool" where
  \<comment> \<open>\<open>s.includes(p)\<close>: \<open>p\<close> occurs in \<open>s\<close> as a contiguous run\<close>
  "str_includes s p = sublist p s"

definition is_space :: "char \<Rightarrow> bool" where
  \<comment> \<open>the white space of \<open>trim()\<close> and of the regular expression class \<open>\s\<close>:
      tab, line feed, vertical tab, form feed, carriage return, space, no-break space\<close>
  "is_space c = (of_char c \<in> {9::nat, 10, 11, 12, 13, 32, 160})"

definition trim :: "string \<Rightarrow> string" where
  "trim s = rev (dropWhile is_space (rev (dropWhile is_space s)))"

definition is_digit :: "char \<Rightarrow> bool" where
  \<comment> \<open>the regular expression class \<open>\d\<close>\<close>
  "is_digit c = (48 \<le> (of_char c :: nat) \<and> (of_char c :: nat) \<le> 57)"

definition digit_val :: "char \<Rightarrow> nat" where
  "digit_val c = of_char c - 48"

definition Number :: "string \<Rightarrow> nat" where
  \<comment> \<open>\<open>Number(s)\<close> on a non-empty run of decimal digits\<close>
  "Number s = foldl (\<lambda>n c. 10 * n + digit_val c) 0 s"

fun splitOn :: "char \<Rightarrow> string \<Rightarrow> string list" where
  "splitOn d [] = [[]]"
| "splitOn d (c # cs) =
     (if c = d then [] # splitOn d cs
      else (case splitOn d cs of [] \<Rightarrow> [[c]] | p # ps \<Rightarrow> (c # p) # ps))"

section \<open>Errors\<close>

datatype ErrorCode = INVALID_URL | TIMEOUT | NOT_FOUND | PAYWALL | NETWORK_ERROR | PARSE_ERROR

datatype ScraperException = ScraperException (code: ErrorCode) (message: string)

definition ERROR_MESSAGES :: "ErrorCode \<Rightarrow> string" where
  "ERROR_MESSAGES c = (case c of
     INVALID_URL \<Rightarrow> ''The provided URL is not a valid Medium article URL''
   | TIMEOUT \<Rightarrow> ''Request timed out after 30 seconds''
   | NOT_FOUND \<Rightarrow> ''Article not found''
   | PAYWALL \<Rightarrow> ''This article is behind Medium's paywall''
   | NETWORK_ERROR \<Rightarrow> ''Failed to fetch the article due to a network error''
   | PARSE_ERROR \<Rightarrow> ''Failed to parse the article content'')"

section \<open>URL validation\<close>

definition MEDIUM_DOMAINS :: "string list" where
  "MEDIUM_DOMAINS =
    [''medium.com'', ''towardsdatascience.com'', ''betterprogramming.pub'',
     ''levelup.gitconnected.com'', ''javascript.plainenglish.io'', ''blog.devgenius.io'',
     ''uxdesign.cc'', ''betterhumans.pub'', ''entrepreneurshandbook.co'',
     ''writingcooperative.com'', ''psiloveyou.xyz'', ''codeburst.io'', ''hackernoon.com'',
     ''itnext.io'', ''blog.bitsrc.io'', ''bootcamp.uxdesign.cc'']"

text \<open>
  What \<open>new URL(url)\<close> yields, as far as the validator reads it. The parser belongs to the
  platform: it is a parameter of the model, \<open>None\<close> standing for the \<open>TypeError\<close> it throws on a
  malformed string.
\<close>

record URL =
  protocol :: string
  hostname :: string

type_synonym url_parser = "string \<Rightarrow> URL option"

definition ipv4Match :: "string \<Rightarrow> nat list option" where
  \<comment> \<open>\<open>lower.match(/^(\d{1,3})\.(\d{1,3})\.(\d{1,3})\.(\d{1,3})$/)\<close>, the four groups
      through \<open>Number\<close>\<close>
  "ipv4Match lower =
     (let parts = splitOn (CHR ''.'') lower in
      if length parts = 4 \<and>
         list_all (\<lambda>p. 1 \<le> length p \<and> length p \<le> 3 \<and> list_all is_digit p) parts
      then Some (map Number parts) else None)"

definition isPrivateHost :: "string \<Rightarrow> bool" where
  "isPrivateHost host =
     (let lower = toLowerCase host in
      if lower = ''localhost'' \<or> lower = ''localhost.localdomain'' then True
      else if (case ipv4Match lower of
                 None \<Rightarrow> False
               | Some m \<Rightarrow>
                   (let a = m ! 0; b = m ! 1 in
                    a = 127 \<or> a = 10 \<or> (a = 172 \<and> b \<ge> 16 \<and> b \<le> 31) \<or>
                    (a = 192 \<and> b = 168) \<or> (a = 169 \<and> b = 254) \<or> a = 0))
      then True
      else if lower = ''::1'' \<or> lower = ''[::1]'' then True
      else False)"

definition validateMediumUrl :: "url_parser \<Rightarrow> string \<Rightarrow> ScraperException + unit" where
  "validateMediumUrl parse url =
     (case parse url of
        None \<Rightarrow> Inl (ScraperException INVALID_URL (ERROR_MESSAGES INVALID_URL))
      | Some parsed \<Rightarrow>
          (let host = toLowerCase (hostname parsed) in
           if isPrivateHost host
           then Inl (ScraperException INVALID_URL ''Private or internal URLs are not allowed'')
           else if protocol parsed \<noteq> ''https:''
           then Inl (ScraperException INVALID_URL ''Only HTTPS URLs are allowed'')
           else if \<not> list_ex (\<lambda>domain. host = domain \<or> endsWith host (CHR ''.'' # domain))
                       MEDIUM_DOMAINS
           then Inl (ScraperException INVALID_URL (ERROR_MESSAGES INVALID_URL))
           else Inr ()))"

subsection \<open>The validator's rule as the specification words it\<close>

definition spec_ipv4_literal :: "string \<Rightarrow> nat option" where
  \<comment> \<open>a dotted quad of decimal octets, each at most 255, as its 32-bit address\<close>
  "spec_ipv4_literal h =
     (let parts = splitOn (CHR ''.'') h in
      if length parts = 4 \<and>
         list_all (\<lambda>p. 1 \<le> length p \<and> length p \<le> 3 \<and> list_all is_digit p \<and> Number p \<le> 255)
           parts
      then Some (((Number (parts ! 0) * 256 + Number (parts ! 1)) * 256 + Number (parts ! 2)) * 256
                 + Number (parts ! 3))
      else None)"

definition in_block :: "nat \<Rightarrow> nat \<Rightarrow> nat \<Rightarrow> bool" where
  \<comment> \<open>\<open>in_block addr base len\<close>: the address lies in the block \<open>base/len\<close>\<close>
  "in_block addr base len = (addr div 2 ^ (32 - len) = base div 2 ^ (32 - len))"

definition ip4 :: "nat \<Rightarrow> nat \<Rightarrow> nat \<Rightarrow> nat \<Rightarrow> nat" where
  "ip4 a b c d = ((a * 256 + b) * 256 + c) * 256 + d"

definition spec_private_host :: "string \<Rightarrow> bool" where
  "spec_private_host h =
     (h = ''localhost'' \<or> h = ''localhost.localdomain'' \<or>
      (case spec_ipv4_literal h of
         None \<Rightarrow> False
       | Some addr \<Rightarrow>
           in_block addr (ip4 127 0 0 0) 8 \<or> in_block addr (ip4 10 0 0 0) 8 \<or>
           in_block addr (ip4 172 16 0 0) 12 \<or> in_block addr (ip4 192 168 0 0) 16 \<or>
           in_block addr (ip4 169 254 0 0) 16 \<or> in_block addr (ip4 0 0 0 0) 8) \<or>
      h = ''::1'' \<or> h = ''[::1]'')"

definition spec_allow_listed :: "string \<Rightarrow> bool" where
  \<comment> \<open>the host equals an allow-list entry or is a subdomain of one\<close>
  "spec_allow_listed h =
     (\<exists>d \<in> set MEDIUM_DOMAINS. h = d \<or> (\<exists>sub. h = sub @ ''.'' @ d))"

definition spec_invalid_url :: "url_parser \<Rightarrow> string \<Rightarrow> bool" where
  "spec_invalid_url parse url =
     (case parse url of
        None \<Rightarrow> True
      | Some u \<Rightarrow>
          spec_private_host (toLowerCase (hostname u)) \<or> protocol u \<noteq> ''https:'' \<or>
          \<not> spec_allow_listed (toLowerCase (hostname u)))"

section \<open>The network\<close>

text \<open>
  \<open>fetch\<close> belongs to the platform. A request either throws (an \<open>AbortError\<close> when the
  request's abort controller fired, anything else otherwise) or yields a response; reading the
  response's body (\<open>text()\<close>, \<open>arrayBuffer()\<close>) can throw in turn. A body is a list of bytes,
  one \<open>char\<close> each. The network is a parameter: the outcome of the \<open>n\<close>-th request issued,
  given its URL. The requests issued so far are kept in a log.
\<close>

datatype fetch_error = AbortError | OtherError

record response =
  status :: nat
  content_type :: "string option"
  content_length :: "string option"
  body :: "fetch_error + string"

definition ok :: "response \<Rightarrow> bool" where
  \<comment> \<open>\<open>response.ok\<close>\<close>
  "ok r = (200 \<le> status r \<and> status r \<le> 299)"

type_synonym network = "nat \<Rightarrow> string \<Rightarrow> fetch_error + response"

definition TIMEOUT_MS :: nat where
  "TIMEOUT_MS = 30000"

definition fetchHtml_catch :: "fetch_error \<Rightarrow> ScraperException" where
  \<comment> \<open>the \<open>catch\<close> block of \<open>fetchHtml\<close> on an error that is no \<open>ScraperException\<close>\<close>
  "fetchHtml_catch e =
     (case e of
        AbortError \<Rightarrow> ScraperException TIMEOUT (ERROR_MESSAGES TIMEOUT)
      | OtherError \<Rightarrow> ScraperException NETWORK_ERROR (ERROR_MESSAGES NETWORK_ERROR))"

definition fetchHtml :: "network \<Rightarrow> string list \<Rightarrow> string \<Rightarrow> (ScraperException + string) \<times> string list" where
  "fetchHtml net log url =
     (case net (length log) url of
        Inl e \<Rightarrow> Inl (fetchHtml_catch e)
      | Inr r \<Rightarrow>
          if status r = 404 then Inl (ScraperException NOT_FOUND (ERROR_MESSAGES NOT_FOUND))
          else if \<not> ok r then Inl (ScraperException NETWORK_ERROR (ERROR_MESSAGES NETWORK_ERROR))
          else (case body r of Inl e \<Rightarrow> Inl (fetchHtml_catch e) | Inr text \<Rightarrow> Inr text),
      log @ [url])"

section \<open>Parsed documents\<close>

text \<open>
  The tree the HTML library hands to the scraper: elements with their attributes in source
  order, text and comments. A document is the list of its top-level nodes. Parsing is the
  library's; tag and attribute names arrive in lower case.
\<close>

datatype node =
  Element string "(string \<times> string) list" "node list"
| Text string
| Comment string

type_synonym attribs = "(string \<times> string) list"
type_synonym document = "node list"

fun tag_name :: "node \<Rightarrow> string" where
  "tag_name (Element n a cs) = n"
| "tag_name _ = []"

fun attribs_of :: "node \<Rightarrow> attribs" where
  "attribs_of (Element n a cs) = a"
| "attribs_of _ = []"

fun children :: "node \<Rightarrow> node list" where
  "children (Element n a cs) = cs"
| "children _ = []"

definition attr :: "node \<Rightarrow> string \<Rightarrow> string option" where
  \<comment> \<open>\<open>$el.attr(name)\<close>\<close>
  "attr el name = map_of (attribs_of el) name"

fun textContent :: "node \<Rightarrow> string" where
  \<comment> \<open>the text of every text node at or below a node, as the library's \<open>text()\<close> collects it\<close>
  "textContent (Element n a cs) = concat (map textContent cs)"
| "textContent (Text s) = s"
| "textContent (Comment s) = []"

definition text_of :: "node list \<Rightarrow> string" where
  \<comment> \<open>\<open>.text()\<close> of a selection: the texts of its elements, one after the other\<close>
  "text_of els = concat (map textContent els)"

fun elements_from :: "node \<Rightarrow> node list" where
  \<comment> \<open>an element and the elements below it, in document order\<close>
  "elements_from (Element n a cs) = Element n a cs # concat (map elements_from cs)"
| "elements_from _ = []"

definition descendants :: "node \<Rightarrow> node list" where
  \<comment> \<open>\<open>.find('*')\<close>: the elements strictly below a node, in document order\<close>
  "descendants el = concat (map elements_from (children el))"

subsection \<open>Selectors\<close>

text \<open>
  The selectors the scraper uses are chains of compound selectors joined by the descendant
  combinator; a compound selector is an optional tag name and attribute tests. \<open>sel_text\<close>
  gives the selector as the source writes it, for the places where the source inspects the
  selector string itself.
\<close>

datatype attr_test =
  Has string
| Eq string string
| EqI string string
| Sub string string
| Class string

text \<open>
  \<open>Has n\<close> is \<open>[n]\<close>, \<open>Eq n v\<close> is \<open>[n="v"]\<close>, \<open>Sub n v\<close> is \<open>[n*="v"]\<close> and \<open>Class c\<close> is
  \<open>.c\<close>. \<open>EqI n v\<close> is \<open>[n="v"]\<close> for an attribute whose value the selector engine compares
  without regard to case in an HTML document; of the attributes in the tables below that is
  \<open>rel\<close>.
\<close>

datatype compound = Compound "string option" "attr_test list"

type_synonym selector = "compound list"

fun test_text :: "attr_test \<Rightarrow> string" where
  "test_text (Has n) = ''['' @ n @ '']''"
| "test_text (Eq n v) = ''['' @ n @ ''='' @ [CHR 0x22] @ v @ [CHR 0x22] @ '']''"
| "test_text (EqI n v) = ''['' @ n @ ''='' @ [CHR 0x22] @ v @ [CHR 0x22] @ '']''"
| "test_text (Sub n v) = ''['' @ n @ ''*='' @ [CHR 0x22] @ v @ [CHR 0x22] @ '']''"
| "test_text (Class c) = ''.'' @ c"

fun compound_text :: "compound \<Rightarrow> string" where
  "compound_text (Compound t ts) =
     (case t of None \<Rightarrow> [] | Some n \<Rightarrow> n) @ concat (map test_text ts)"

fun sel_text :: "selector \<Rightarrow> string" where
  "sel_text [] = []"
| "sel_text [c] = compound_text c"
| "sel_text (c # cs) = compound_text c @ '' '' @ sel_text cs"

fun words :: "string \<Rightarrow> string list" where
  \<comment> \<open>the white-space separated words of an attribute value\<close>
  "words [] = []"
| "words (c # cs) =
     (if is_space c then words cs
      else (case cs of
              [] \<Rightarrow> [[c]]
            | d # ds \<Rightarrow> if is_space d then [c] # words cs
                       else (case words cs of [] \<Rightarrow> [[c]] | w # ws \<Rightarrow> (c # w) # ws)))"

fun holds :: "attr_test \<Rightarrow> attribs \<Rightarrow> bool" where
  "holds (Has n) a = (map_of a n \<noteq> None)"
| "holds (Eq n v) a = (map_of a n = Some v)"
| "holds (EqI n v) a =
     (case map_of a n of None \<Rightarrow> False | Some w \<Rightarrow> toLowerCase w = toLowerCase v)"
| "holds (Sub n v) a =
     (case map_of a n of None \<Rightarrow> False | Some w \<Rightarrow> v \<noteq> [] \<and> str_includes w v)"
| "holds (Class c) a =
     (case map_of a ''class'' of None \<Rightarrow> False | Some w \<Rightarrow> c \<in> set (words w))"

fun matches :: "compound \<Rightarrow> node \<Rightarrow> bool" where
  "matches (Compound t ts) (Element n a cs) =
     ((case t of None \<Rightarrow> True | Some m \<Rightarrow> n = m) \<and> list_all (\<lambda>x. holds x a) ts)"
| "matches c _ = False"

fun walk :: "compound \<Rightarrow> compound list \<Rightarrow> node \<Rightarrow> node list" where
  \<comment> \<open>the elements at or below a node that match the chain \<open>c # rest\<close>, in document order\<close>
  "walk c rest (Element n a cs) =
     (if matches c (Element n a cs)
      then (case rest of
              [] \<Rightarrow> Element n a cs # concat (map (walk c []) cs)
            | c' # rest' \<Rightarrow> concat (map (walk c' rest') cs))
      else concat (map (walk c rest) cs))"
| "walk c rest _ = []"

definition select :: "selector \<Rightarrow> document \<Rightarrow> node list" where
  \<comment> \<open>\<open>$(selector)\<close>\<close>
  "select sel doc = (case sel of [] \<Rightarrow> [] | c # rest \<Rightarrow> concat (map (walk c rest) doc))"

fun walk_outer :: "compound \<Rightarrow> compound list \<Rightarrow> node \<Rightarrow> node list" where
  \<comment> \<open>as \<open>walk\<close>, keeping only the matches that lie in no other match\<close>
  "walk_outer c rest (Element n a cs) =
     (if matches c (Element n a cs)
      then (case rest of
              [] \<Rightarrow> [Element n a cs]
            | c' # rest' \<Rightarrow> concat (map (walk_outer c' rest') cs))
      else concat (map (walk_outer c rest) cs))"
| "walk_outer c rest _ = []"

definition select_find :: "selector \<Rightarrow> compound \<Rightarrow> document \<Rightarrow> node list" where
  \<comment> \<open>\<open>$(selector).find(c)\<close>: the elements matching \<open>c\<close> strictly below a selected element,
      each once, in document order\<close>
  "select_find sel c doc =
     (case sel of
        [] \<Rightarrow> []
      | c0 # rest \<Rightarrow>
          concat (map (\<lambda>root. filter (matches c) (descendants root))
                      (concat (map (walk_outer c0 rest) doc))))"

subsection \<open>The selector tables\<close>

definition tag_sel :: "string \<Rightarrow> compound" where
  "tag_sel n = Compound (Some n) []"

definition CSS_SELECTORS_title :: "selector list" where
  "CSS_SELECTORS_title = [[tag_sel ''h1''], [Compound None [Eq ''data-testid'' ''storyTitle'']]]"

definition CSS_SELECTORS_subtitle :: "selector list" where
  "CSS_SELECTORS_subtitle =
     [[tag_sel ''h2''], [Compound None [Eq ''data-testid'' ''storySubtitle'']],
      [Compound (Some ''meta'') [Eq ''name'' ''description'']]]"

definition CSS_SELECTORS_author :: "selector list" where
  "CSS_SELECTORS_author =
     [[Compound None [Eq ''data-testid'' ''authorName'']],
      [Compound (Some ''meta'') [Eq ''name'' ''author'']],
      [Compound None [EqI ''rel'' ''author'']]]"

definition CSS_SELECTORS_publishedDate :: "selector list" where
  "CSS_SELECTORS_publishedDate =
     [[Compound (Some ''time'') [Has ''datetime'']],
      [Compound (Some ''meta'') [Eq ''property'' ''article:published_time'']]]"

definition CSS_SELECTORS_readingTime :: "selector list" where
  "CSS_SELECTORS_readingTime = [[Compound None [Eq ''data-testid'' ''storyReadTime'']]]"

definition CSS_SELECTORS_tags :: "selector list" where
  "CSS_SELECTORS_tags =
     [[Compound None [Eq ''data-testid'' ''tag'']], [Compound (Some ''a'') [Sub ''href'' ''/tag/'']]]"

definition CSS_SELECTORS_content :: "selector list" where
  "CSS_SELECTORS_content =
     [[tag_sel ''article'', tag_sel ''section''], [Compound None [Eq ''data-field'' ''body'']],
      [tag_sel ''article'']]"

definition CSS_SELECTORS_paywall :: "selector list" where
  "CSS_SELECTORS_paywall =
     [[Compound None [Eq ''data-testid'' ''paywall'']], [Compound None [Class ''meteredContent'']],
      [Compound None [Sub ''id'' ''paywall'']]]"

definition ELEMENTS_TO_REMOVE :: "compound list" where
  "ELEMENTS_TO_REMOVE =
     [tag_sel ''nav'', tag_sel ''header'', tag_sel ''footer'', tag_sel ''aside'', tag_sel ''script'',
      tag_sel ''style'', tag_sel ''noscript'', tag_sel ''iframe'', tag_sel ''svg'', tag_sel ''button'',
      tag_sel ''form'', tag_sel ''input'',
      Compound None [Eq ''data-testid'' ''headerNav''],
      Compound None [Eq ''data-testid'' ''footerNav''],
      Compound None [Eq ''role'' ''banner''],
      Compound None [Eq ''role'' ''navigation''],
      Compound None [Eq ''role'' ''complementary''],
      Compound None [Sub ''class'' ''share''],
      Compound None [Sub ''class'' ''social''],
      Compound None [Sub ''class'' ''comment''],
      Compound None [Sub ''class'' ''related''],
      Compound None [Sub ''class'' ''recommend''],
      Compound None [Sub ''class'' ''follow''],
      Compound None [Sub ''class'' ''subscribe''],
      Compound None [Sub ''class'' ''newsletter''],
      Compound None [Sub ''class'' ''ad-''],
      Compound None [Sub ''class'' ''ads-''],
      Compound None [Sub ''class'' ''promo'']]"

section \<open>Paywall detection\<close>

fun paywall_marker :: "document \<Rightarrow> selector list \<Rightarrow> bool" where
  \<comment> \<open>the loop over \<open>CSS_SELECTORS.paywall\<close>: does it throw?\<close>
  "paywall_marker doc [] = False"
| "paywall_marker doc (sel # sels) =
     (if length (select sel doc) > 0 then True else paywall_marker doc sels)"

definition checkPaywall :: "document \<Rightarrow> ScraperException + unit" where
  "checkPaywall doc =
     (if paywall_marker doc CSS_SELECTORS_paywall
      then Inl (ScraperException PAYWALL (ERROR_MESSAGES PAYWALL))
      else
        (let bodyText = toLowerCase (text_of (select [tag_sel ''body''] doc)) in
         if str_includes bodyText ''member-only story'' \<or> str_includes bodyText ''become a member''
         then
           (let articleContent = trim (text_of (select [tag_sel ''article''] doc)) in
            if length articleContent < 500
            then Inl (ScraperException PAYWALL (ERROR_MESSAGES PAYWALL))
            else Inr ())
         else Inr ()))"

section \<open>Metadata extraction\<close>

definition truthy :: "string option \<Rightarrow> bool" where
  \<comment> \<open>a string or \<open>undefined\<close> used as a condition: defined and not empty\<close>
  "truthy v = (case v of None \<Rightarrow> False | Some s \<Rightarrow> s \<noteq> [])"

definition js_or :: "string option \<Rightarrow> string option \<Rightarrow> string option" where
  \<comment> \<open>\<open>a || b\<close>\<close>
  "js_or a b = (if truthy a then a else b)"

definition or_empty :: "string option \<Rightarrow> string" where
  \<comment> \<open>\<open>a || ''\<close>\<close>
  "or_empty a = (case a of None \<Rightarrow> [] | Some s \<Rightarrow> s)"

fun extractWithSelectors :: "document \<Rightarrow> selector list \<Rightarrow> string option" where
  "extractWithSelectors doc [] = None"
| "extractWithSelectors doc (sel # sels) =
     (case select sel doc of
        [] \<Rightarrow> extractWithSelectors doc sels
      | element # _ \<Rightarrow>
          if startsWith (sel_text sel) ''meta''
          then (if truthy (attr element ''content'')
                then Some (trim (or_empty (attr element ''content'')))
                else extractWithSelectors doc sels)
          else (let t = trim (textContent element) in
                if t \<noteq> [] then Some t else extractWithSelectors doc sels))"

fun publishedDate_loop :: "document \<Rightarrow> selector list \<Rightarrow> string \<Rightarrow> string" where
  \<comment> \<open>the loop over \<open>CSS_SELECTORS.publishedDate\<close>, the variable \<open>publishedDate\<close> passed along\<close>
  "publishedDate_loop doc [] publishedDate = publishedDate"
| "publishedDate_loop doc (sel # sels) publishedDate =
     (case select sel doc of
        [] \<Rightarrow> publishedDate_loop doc sels publishedDate
      | element # _ \<Rightarrow>
          (let publishedDate' =
                 (if str_includes (sel_text sel) ''time'' then or_empty (attr element ''datetime'')
                  else if startsWith (sel_text sel) ''meta'' then or_empty (attr element ''content'')
                  else publishedDate)
           in if publishedDate' \<noteq> [] then publishedDate'
              else publishedDate_loop doc sels publishedDate'))"

fun first_min_match :: "string \<Rightarrow> string option" where
  \<comment> \<open>\<open>s.match(/\d+\s*min/)?.[0]\<close>: the leftmost match\<close>
  "first_min_match [] = None"
| "first_min_match (c # cs) =
     (if is_digit c
      then (let digits = takeWhile is_digit (c # cs);
                after_digits = dropWhile is_digit (c # cs);
                spaces = takeWhile is_space after_digits;
                after_spaces = dropWhile is_space after_digits
            in if startsWith after_spaces ''min'' then Some (digits @ spaces @ ''min'')
               else first_min_match cs)
      else first_min_match cs)"

definition add_tag :: "node \<Rightarrow> string list \<times> string set \<Rightarrow> string list \<times> string set" where
  \<comment> \<open>the body of the callback of \<open>each\<close> in the tag loop, on the pair (tags, seenTags)\<close>
  "add_tag el st =
     (let tag = toLowerCase (trim (textContent el)) in
      if tag \<noteq> [] \<and> tag \<notin> snd st \<and> length tag < 50
      then (fst st @ [tag], insert tag (snd st))
      else st)"

definition extract_tags :: "document \<Rightarrow> string list" where
  "extract_tags doc =
     fst (fold (\<lambda>sel st. fold add_tag (select sel doc) st) CSS_SELECTORS_tags ([], {}))"

record Metadata =
  url :: string
  title :: string
  subtitle :: "string option"
  author :: string
  publishedDate :: string
  readingTime :: "string option"
  tags :: "string list option"

definition extractMetadata :: "document \<Rightarrow> string \<Rightarrow> string \<Rightarrow> ScraperException + Metadata" where
  \<comment> \<open>the third argument is what \<open>new Date().toISOString()\<close> gives at the call\<close>
  "extractMetadata doc u now =
     (let title_opt = extractWithSelectors doc CSS_SELECTORS_title in
      if \<not> truthy title_opt
      then Inl (ScraperException PARSE_ERROR ''Could not extract article title'')
      else
        (let subtitle' = extractWithSelectors doc CSS_SELECTORS_subtitle;
             author_opt = extractWithSelectors doc CSS_SELECTORS_author;
             author' = (if truthy author_opt then or_empty author_opt else ''Unknown Author'');
             found = publishedDate_loop doc CSS_SELECTORS_publishedDate [];
             publishedDate' = (if found = [] then now else found);
             readingTimeText = extractWithSelectors doc CSS_SELECTORS_readingTime;
             readingTime' = (case readingTimeText of None \<Rightarrow> None | Some t \<Rightarrow> first_min_match t);
             tags' = extract_tags doc
         in Inr \<lparr>url = u, title = or_empty title_opt, subtitle = subtitle', author = author',
                 publishedDate = publishedDate', readingTime = readingTime',
                 tags = (if length tags' > 0 then Some tags' else None)\<rparr>))"

section \<open>The HTML cleaner\<close>

definition is_tag :: "node \<Rightarrow> bool" where
  \<comment> \<open>\<open>el.type === 'tag'\<close>: the library gives \<open>script\<close> and \<open>style\<close> elements types of their own\<close>
  "is_tag el = (tag_name el \<noteq> ''script'' \<and> tag_name el \<noteq> ''style'')"

fun remove_below :: "(node \<Rightarrow> bool) \<Rightarrow> node \<Rightarrow> node" where
  \<comment> \<open>detach every element strictly below the node that satisfies the test\<close>
  "remove_below P (Element n a cs) =
     Element n a (map (remove_below P) (filter (\<lambda>c. \<not> P c) cs))"
| "remove_below P x = x"

definition is_empty_element :: "node \<Rightarrow> bool" where
  \<comment> \<open>the test of the second loop of \<open>removeUnwantedElements\<close> on one element\<close>
  "is_empty_element el =
     (case el of
        Element n a cs \<Rightarrow>
          (let tagName = (if is_tag el then toLowerCase n else []) in
           if tagName \<in> set [''img'', ''br'', ''hr'', ''input'', ''meta'', ''link''] then False
           else trim (textContent el) = [] \<and>
                length (filter (matches (tag_sel ''img'')) (descendants el)) = 0)
      | _ \<Rightarrow> False)"

definition removeUnwantedElements :: "node \<Rightarrow> node" where
  "removeUnwantedElements container =
     remove_below is_empty_element
       (fold (\<lambda>selector c. remove_below (matches selector) c) ELEMENTS_TO_REMOVE container)"

definition splitNames :: "string \<Rightarrow> string list" where
  \<comment> \<open>the library reads the argument of \<open>removeAttr\<close> as a white-space separated list of
      names: \<open>names ? names.trim().split(/\s+/) : []\<close>\<close>
  "splitNames names =
     (if names = [] then [] else (case words names of [] \<Rightarrow> [[]] | ws \<Rightarrow> ws))"

definition removeAttr :: "string \<Rightarrow> attribs \<Rightarrow> attribs" where
  \<comment> \<open>\<open>$el.removeAttr(name)\<close>: every attribute whose name is one of the names listed goes\<close>
  "removeAttr name a = filter (\<lambda>kv. fst kv \<notin> set (splitNames name)) a"

definition setAttr :: "string \<Rightarrow> string \<Rightarrow> attribs \<Rightarrow> attribs" where
  \<comment> \<open>\<open>$el.attr(name, value)\<close>: an attribute that is there keeps its place\<close>
  "setAttr name v a =
     (if map_of a name = None then a @ [(name, v)]
      else map (\<lambda>kv. if fst kv = name then (name, v) else kv) a)"

definition keep_only :: "string list \<Rightarrow> attribs \<Rightarrow> attribs" where
  \<comment> \<open>the loop over \<open>Object.keys(attributes)\<close> removing what \<open>allowedAttrs\<close> lacks\<close>
  "keep_only allowedAttrs a =
     fold (\<lambda>name acc. if name \<notin> set allowedAttrs then removeAttr name acc else acc)
       (map fst a) a"

definition strip_tracking :: "attribs \<Rightarrow> attribs" where
  \<comment> \<open>the first loop of \<open>cleanAttributes\<close> over \<open>Object.keys(attributes)\<close>\<close>
  "strip_tracking a =
     fold (\<lambda>name acc.
             (let acc1 = (if startsWith name ''data-'' \<and> name \<noteq> ''data-testid''
                          then removeAttr name acc else acc)
              in if startsWith name ''aria-'' \<or> startsWith name ''on''
                 then removeAttr name acc1 else acc1))
       (map fst a) a"

definition clean_link :: "attribs \<Rightarrow> attribs" where
  "clean_link a =
     (let href = map_of a ''href'';
          kept = keep_only [''href'', ''title''] a
      in if truthy href then setAttr ''href'' (or_empty href) kept else kept)"

definition clean_image :: "attribs \<Rightarrow> attribs" where
  "clean_image a =
     (let src = js_or (map_of a ''src'') (map_of a ''data-src'');
          alt = map_of a ''alt'';
          kept = keep_only [''src'', ''alt''] a;
          with_src = (if truthy src then setAttr ''src'' (or_empty src) kept else kept)
      in if truthy alt then setAttr ''alt'' (or_empty alt) with_src else with_src)"

definition clean_element :: "node \<Rightarrow> attribs" where
  \<comment> \<open>the callback of \<open>each\<close> in \<open>cleanAttributes\<close>: the attributes it leaves on one element\<close>
  "clean_element el =
     (if \<not> is_tag el then attribs_of el
      else
        (let a1 = strip_tracking (attribs_of el);
             a2 = (if tag_name el = ''a'' then clean_link a1 else a1)
         in if tag_name el = ''img'' then clean_image a2 else a2))"

fun clean_node :: "node \<Rightarrow> node" where
  "clean_node (Element n a cs) = Element n (clean_element (Element n a cs)) (map clean_node cs)"
| "clean_node x = x"

fun cleanAttributes :: "node \<Rightarrow> node" where
  \<comment> \<open>\<open>container.find('*').each(...)\<close>: every element strictly below the container\<close>
  "cleanAttributes (Element n a cs) = Element n a (map clean_node cs)"
| "cleanAttributes x = x"

function collapse_spaces :: "string \<Rightarrow> string" where
  \<comment> \<open>\<open>.replace(/\s+/g, ' ')\<close>\<close>
  "collapse_spaces [] = []"
| "collapse_spaces (c # cs) =
     (if is_space c then CHR '' '' # collapse_spaces (dropWhile is_space cs)
      else c # collapse_spaces cs)"
  by pat_completeness auto
termination
  by (relation "measure length") (auto simp: length_dropWhile_le less_Suc_eq_le)

function close_up_tags :: "string \<Rightarrow> string" where
  \<comment> \<open>\<open>.replace(/>\s+</g, '><')\<close>\<close>
  "close_up_tags [] = []"
| "close_up_tags (c # cs) =
     (if c = CHR ''>'' \<and> takeWhile is_space cs \<noteq> [] \<and>
         startsWith (dropWhile is_space cs) ''<''
      then CHR ''>'' # CHR ''<'' # close_up_tags (tl (dropWhile is_space cs))
      else c # close_up_tags cs)"
  by pat_completeness auto
termination
proof (relation "measure length")
  show "wf (measure length)" by simp
next
  fix c :: char and cs :: string
  assume "c = CHR ''>'' \<and> takeWhile is_space cs \<noteq> [] \<and> startsWith (dropWhile is_space cs) ''<''"
  have "length (tl (dropWhile is_space cs)) \<le> length cs"
    using length_dropWhile_le[of is_space cs] by simp
  then show "(tl (dropWhile is_space cs), c # cs) \<in> measure length" by simp
next
  fix c :: char and cs :: string
  show "(cs, c # cs) \<in> measure length" by simp
qed

definition cleanHtml :: "(node list \<Rightarrow> string) \<Rightarrow> document \<Rightarrow> selector \<Rightarrow> string" where
  \<comment> \<open>the first argument is the library's serializer behind \<open>.html()\<close>\<close>
  "cleanHtml render doc contentSelector =
     (let container = select contentSelector doc in
      if length container = 0 then []
      else
        (let cleaned = map (\<lambda>c. cleanAttributes (removeUnwantedElements c)) container;
             html = render (children (hd cleaned))
         in trim (trim (close_up_tags (collapse_spaces html)))))"

record ImageData =
  image_url :: string
  image_alt :: "string option"

definition add_image :: "node \<Rightarrow> ImageData list \<times> string set \<Rightarrow> ImageData list \<times> string set" where
  \<comment> \<open>the callback of \<open>each\<close> in \<open>extractImages\<close>, on the pair (images, seen)\<close>
  "add_image el st =
     (let src = js_or (attr el ''src'') (attr el ''data-src'');
          alt = attr el ''alt''
      in if truthy src \<and> or_empty src \<notin> snd st
         then (let s = or_empty src; seen = insert s (snd st) in
               if startsWith s ''http'' \<or> startsWith s ''//''
               then (fst st @ [\<lparr>image_url = (if startsWith s ''//'' then ''https:'' @ s else s),
                                 image_alt = (if truthy alt then alt else None)\<rparr>], seen)
               else (fst st, seen))
         else st)"

definition extractImages :: "document \<Rightarrow> selector \<Rightarrow> ImageData list" where
  "extractImages doc contentSelector =
     fst (fold add_image (select_find contentSelector (tag_sel ''img'') doc) ([], {}))"

section \<open>The image downloader\<close>

definition MAX_IMAGE_SIZE_BYTES :: nat where
  "MAX_IMAGE_SIZE_BYTES = 5 * 1024 * 1024"

definition MAX_IMAGES_PER_ARTICLE :: nat where
  "MAX_IMAGES_PER_ARTICLE = 50"

definition parseInt :: "string \<Rightarrow> int option" where
  \<comment> \<open>\<open>parseInt(s, 10)\<close>, \<open>None\<close> for \<open>NaN\<close>: leading white space, a sign, then the digits\<close>
  "parseInt s =
     (let t = dropWhile is_space s;
          neg = startsWith t ''-'';
          u = (if startsWith t ''-'' \<or> startsWith t ''+'' then tl t else t);
          ds = takeWhile is_digit u
      in if ds = [] then None
         else Some (if neg then - int (Number ds) else int (Number ds)))"

definition downloadImage_try ::
    "(string \<Rightarrow> string) \<Rightarrow> (fetch_error + response) \<Rightarrow> fetch_error + string option" where
  \<comment> \<open>the \<open>try\<close> block, given what the request came to; \<open>Inl\<close> is an exception on its way to
      the \<open>catch\<close>. The first argument is the platform's base64 encoder.\<close>
  "downloadImage_try toBase64 outcome =
     (case outcome of
        Inl e \<Rightarrow> Inl e
      | Inr r \<Rightarrow>
          if \<not> ok r then Inr None
          else
            (let contentType =
                   (if truthy (content_type r) then or_empty (content_type r) else ''image/jpeg'')
             in if \<not> startsWith contentType ''image/'' then Inr None
                else if truthy (content_length r) \<and>
                        (case parseInt (or_empty (content_length r)) of
                           None \<Rightarrow> False
                         | Some n \<Rightarrow> n > int MAX_IMAGE_SIZE_BYTES)
                then Inr None
                else
                  (case body r of
                     Inl e \<Rightarrow> Inl e
                   | Inr arrayBuffer \<Rightarrow>
                       if length arrayBuffer > MAX_IMAGE_SIZE_BYTES then Inr None
                       else Inr (Some (''data:'' @ contentType @ '';base64,'' @ toBase64 arrayBuffer)))))"

definition downloadImage ::
    "(string \<Rightarrow> string) \<Rightarrow> network \<Rightarrow> string list \<Rightarrow> string \<Rightarrow> string option \<times> string list" where
  "downloadImage toBase64 net log u =
     (case downloadImage_try toBase64 (net (length log) u) of
        Inl e \<Rightarrow> None
      | Inr result \<Rightarrow> result,
      log @ [u])"

record ArticleImage =
  originalUrl :: string
  base64 :: "string option"
  alt :: "string option"

fun download_each ::
    "(string \<Rightarrow> string) \<Rightarrow> network \<Rightarrow> string list \<Rightarrow> ImageData list \<Rightarrow> ArticleImage list \<times> string list" where
  \<comment> \<open>the \<open>map\<close> inside \<open>Promise.all\<close>: the requests go out in the order of the list\<close>
  "download_each toBase64 net log [] = ([], log)"
| "download_each toBase64 net log (d # ds) =
     (let (b, log1) = downloadImage toBase64 net log (image_url d);
          (rest, log2) = download_each toBase64 net log1 ds
      in (\<lparr>originalUrl = image_url d, base64 = b, alt = image_alt d\<rparr> # rest, log2))"

definition downloadAllImages ::
    "(string \<Rightarrow> string) \<Rightarrow> network \<Rightarrow> string list \<Rightarrow> ImageData list \<Rightarrow> ArticleImage list \<times> string list" where
  "downloadAllImages toBase64 net log imageData =
     (let limitedImageData = take MAX_IMAGES_PER_ARTICLE imageData
      in download_each toBase64 net log limitedImageData)"

section \<open>The scraper\<close>

record Article = Metadata +
  content :: string
  images :: "ArticleImage list"

text \<open>What a call of the scraper depends on beyond its argument.\<close>

record world =
  parseURL :: url_parser
  net :: network
  load :: "string \<Rightarrow> document"
  render :: "node list \<Rightarrow> string"
  now :: string
  toBase64 :: "string \<Rightarrow> string"

definition pick_content_selector :: "document \<Rightarrow> selector" where
  "pick_content_selector doc =
     (case find (\<lambda>sel. length (select sel doc) > 0) CSS_SELECTORS_content of
        None \<Rightarrow> [tag_sel ''article'']
      | Some sel \<Rightarrow> sel)"

definition scrapeArticle :: "world \<Rightarrow> string \<Rightarrow> (ScraperException + Article) \<times> string list" where
  \<comment> \<open>the result and the requests issued, in order\<close>
  "scrapeArticle w u =
     (case validateMediumUrl (parseURL w) u of
        Inl e \<Rightarrow> (Inl e, [])
      | Inr _ \<Rightarrow>
          (case fetchHtml (net w) [] u of
             (Inl e, log) \<Rightarrow> (Inl e, log)
           | (Inr html, log) \<Rightarrow>
               (let doc = load w html in
                case checkPaywall doc of
                  Inl e \<Rightarrow> (Inl e, log)
                | Inr _ \<Rightarrow>
                    (case extractMetadata doc u (now w) of
                       Inl e \<Rightarrow> (Inl e, log)
                     | Inr metadata \<Rightarrow>
                         (let contentSelector = pick_content_selector doc;
                              imageData = extractImages doc contentSelector;
                              (imgs, log') = downloadAllImages (toBase64 w) (net w) log imageData;
                              c = cleanHtml (render w) doc contentSelector
                          in if c = []
                             then (Inl (ScraperException PARSE_ERROR (ERROR_MESSAGES PARSE_ERROR)), log')
                             else (Inr \<lparr>url = url metadata, title = title metadata,
                                        subtitle = subtitle metadata, author = author metadata,
                                        publishedDate = publishedDate metadata,
                                        readingTime = readingTime metadata, tags = tags metadata,
                                        content = c, images = imgs\<rparr>, log'))))))"

section \<open>The rules in words\<close>

text \<open>
  Definitions that follow the wording of the specification, to compare the functions above
  with.
\<close>

subsection \<open>The paywall rule\<close>





subsection \<open>Image extraction\<close>

definition image_source :: "node \<Rightarrow> string" where
  \<comment> \<open>the source an image element is taken by: \<open>src\<close>, or \<open>data-src\<close> when \<open>src\<close> is missing or
      empty; empty when there is none\<close>
  "image_source el = or_empty (js_or (attr el ''src'') (attr el ''data-src''))"

definition accepted_source :: "string \<Rightarrow> bool" where
  "accepted_source s = (startsWith s ''http'' \<or> startsWith s ''//'')"

definition rewritten :: "string \<Rightarrow> string" where
  \<comment> \<open>a protocol-relative source made absolute\<close>
  "rewritten s = (if startsWith s ''//'' then ''https:'' @ s else s)"

definition to_image :: "node \<Rightarrow> ImageData" where
  "to_image el =
     \<lparr>image_url = rewritten (image_source el),
      image_alt = (if truthy (attr el ''alt'') then attr el ''alt'' else None)\<rparr>"

function keep_first :: "('a \<Rightarrow> 'k) \<Rightarrow> 'a list \<Rightarrow> 'a list" where
  \<comment> \<open>the first element for each key, in order\<close>
  "keep_first key [] = []"
| "keep_first key (x # xs) = x # keep_first key (filter (\<lambda>y. key y \<noteq> key x) xs)"
  by pat_completeness auto
termination
  by (relation "measure (\<lambda>p. length (snd p))") (auto simp: less_Suc_eq_le)

subsection \<open>The cleaner\<close>

definition cleaned_content :: "document \<Rightarrow> selector \<Rightarrow> node list" where
  \<comment> \<open>the nodes \<open>cleanHtml\<close> hands to the serializer: the children of the first selected
      element, cleaned\<close>
  "cleaned_content doc sel =
     children (cleanAttributes (removeUnwantedElements (hd (select sel doc))))"

definition output_elements :: "document \<Rightarrow> selector \<Rightarrow> node list" where
  \<comment> \<open>every element of the output, in document order\<close>
  "output_elements doc sel = concat (map elements_from (cleaned_content doc sel))"

subsection \<open>Tags\<close>

definition tag_text :: "node \<Rightarrow> string" where
  "tag_text el = toLowerCase (trim (textContent el))"

definition tags_in_order :: "document \<Rightarrow> string list" where
  \<comment> \<open>the texts of the tag elements, selector by selector and in document order, lower-cased,
      without the empty ones and those of 50 characters or more, each kept where it first occurs\<close>
  "tags_in_order doc =
     keep_first (\<lambda>t. t)
       (filter (\<lambda>t. t \<noteq> [] \<and> length t < 50)
          (map tag_text (concat (map (\<lambda>sel. select sel doc) CSS_SELECTORS_tags))))"

section \<open>Example inputs\<close>

definition example_parser :: url_parser where
  "example_parser s =
     (if s = ''https://medium.com/@user/article-123''
      then Some \<lparr>protocol = ''https:'', hostname = ''medium.com''\<rparr>
      else if s = ''http://127.0.0.1/admin''
      then Some \<lparr>protocol = ''http:'', hostname = ''127.0.0.1''\<rparr>
      else if s = ''https://Blog.Medium.com/x''
      then Some \<lparr>protocol = ''https:'', hostname = ''blog.medium.com''\<rparr>
      else None)"

definition net_404 :: network where
  "net_404 n u = Inr \<lparr>status = 404, content_type = None, content_length = None, body = Inr []\<rparr>"

definition net_500 :: network where
  "net_500 n u = Inr \<lparr>status = 500, content_type = None, content_length = None, body = Inr []\<rparr>"

definition net_timeout :: network where
  "net_timeout n u = Inl AbortError"

definition net_down :: network where
  "net_down n u = Inl OtherError"

definition net_page :: network where
  "net_page n u =
     Inr \<lparr>status = 200, content_type = Some ''text/html'', content_length = None,
          body = Inr ''<h1>Title</h1>''\<rparr>"






definition meta_date_doc :: document where
  "meta_date_doc =
     [Element ''html'' []
        [Element ''head'' []
           [Element ''meta'' [(''property'', ''article:published_time''), (''content'', ''2026-01-01'')] []],
         Element ''body'' []
           [Element ''article'' [] [Element ''h1'' [] [Text ''Title''], Element ''p'' [] [Text ''Content'']]]]]"

definition time_date_doc :: document where
  "time_date_doc =
     [Element ''html'' []
        [Element ''body'' []
           [Element ''article'' []
              [Element ''h1'' [] [Text ''Test Article Title''],
               Element ''time'' [(''datetime'', ''2026-02-07T12:00:00Z'')] [Text ''Feb 7, 2026''],
               Element ''p'' [] [Text ''Article content goes here.'']]]]]"

definition sixty_images :: "ImageData list" where
  "sixty_images =
     map (\<lambda>n. \<lparr>image_url = ''https://cdn.example.com/'' @ replicate n (CHR ''x''),
                image_alt = Some (replicate n (CHR ''a''))\<rparr>) [0..<60]"

definition three_images :: "ImageData list" where
  "three_images =
     [\<lparr>image_url = ''https://cdn.example.com/good.png'', image_alt = Some ''Good''\<rparr>,
      \<lparr>image_url = ''https://cdn.example.com/huge.png'', image_alt = Some ''Huge''\<rparr>,
      \<lparr>image_url = ''https://cdn.example.com/page.html'', image_alt = None\<rparr>]"

definition net_images :: network where
  "net_images n u =
     (if u = ''https://cdn.example.com/good.png''
      then Inr \<lparr>status = 200, content_type = Some ''image/png'', content_length = Some ''4'',
                body = Inr ''PNG!''\<rparr>
      else if u = ''https://cdn.example.com/huge.png''
      then Inr \<lparr>status = 200, content_type = Some ''image/png'', content_length = Some ''6291456'',
                body = Inr []\<rparr>
      else if u = ''https://cdn.example.com/page.html''
      then Inr \<lparr>status = 200, content_type = Some ''text/html'', content_length = None,
                body = Inr ''<p>no</p>''\<rparr>
      else Inl OtherError)"

definition example_base64 :: "string \<Rightarrow> string" where
  \<comment> \<open>stands in for the platform's encoder in the examples\<close>
  "example_base64 bytes = (if bytes = ''PNG!'' then ''UE5HIQ=='' else [])"

definition protocol_relative_twin_doc :: document where
  "protocol_relative_twin_doc =
     [Element ''html'' []
        [Element ''body'' []
           [Element ''article'' []
              [Element ''p'' [] [Text ''Two pictures'']
              ,Element ''img'' [(''src'', ''//cdn.example.com/a.jpg''), (''alt'', ''First'')] []
              ,Element ''img'' [(''src'', ''https://cdn.example.com/a.jpg''), (''alt'', ''Second'')] []]]]]"

definition same_src_doc :: document where
  "same_src_doc =
     [Element ''html'' []
        [Element ''body'' []
           [Element ''article'' []
              [Element ''img'' [(''src'', ''https://example.com/same.jpg''), (''alt'', ''First'')] []
              ,Element ''img'' [(''src'', ''https://example.com/same.jpg''), (''alt'', ''Duplicate'')] []]]]]"

subsection \<open>A serializer for the examples\<close>

fun escape_text :: "string \<Rightarrow> string" where
  "escape_text [] = []"
| "escape_text (c # cs) =
     (if c = CHR ''&'' then ''&amp;'' else if c = CHR ''<'' then ''&lt;''
      else if c = CHR ''>'' then ''&gt;'' else [c]) @ escape_text cs"

fun escape_attr :: "string \<Rightarrow> string" where
  "escape_attr [] = []"
| "escape_attr (c # cs) =
     (if c = CHR ''&'' then ''&amp;'' else if c = CHR 0x22 then ''&quot;'' else [c]) @ escape_attr cs"

definition void_elements :: "string list" where
  "void_elements = [''area'', ''base'', ''br'', ''col'', ''embed'', ''hr'', ''img'', ''input'',
                    ''link'', ''meta'', ''source'', ''track'', ''wbr'']"

fun render_node :: "node \<Rightarrow> string" where
  "render_node (Element n a cs) =
     ''<'' @ n @ concat (map (\<lambda>kv. '' '' @ fst kv @ ''='' @ [CHR 0x22] @ escape_attr (snd kv) @ [CHR 0x22]) a)
       @ ''>'' @ (if n \<in> set void_elements then []
                 else concat (map render_node cs) @ ''</'' @ n @ ''>'')"
| "render_node (Text s) = escape_text s"
| "render_node (Comment s) = ''<!--'' @ s @ ''-->''"

definition example_render :: "node list \<Rightarrow> string" where
  "example_render nodes = concat (map render_node nodes)"

definition tracked_doc :: document where
  "tracked_doc =
     [Element ''html'' []
        [Element ''body'' []
           [Element ''article'' [(''data-page'', ''1'')]
              [Element ''nav'' [] [Text ''Navigation''],
               Text ''  '',
               Element ''script'' [] [Text ''alert(1)''],
               Element ''div'' [(''data-tracking'', ''abc''), (''data-testid'', ''content''),
                               (''aria-label'', ''x''), (''onclick'', ''go()'')]
                 [Text ''Text  here'',
                  Element ''a'' [(''href'', ''https://medium.com/x''), (''class'', ''link''),
                                (''data-testid'', ''l''), (''title'', ''T'')] [Text ''link'']],
               Element ''p'' [] [],
               Element ''figure'' []
                 [Element ''img'' [(''src'', ''https://cdn.example.com/a.png''), (''alt'', ''A''),
                                  (''width'', ''700''), (''data-src'', ''https://cdn.example.com/b.png'')] []],
               Element ''footer'' [] [Text ''Footer'']]]]]"

definition lazy_doc :: document where
  "lazy_doc =
     [Element ''html'' []
        [Element ''body'' []
           [Element ''article'' []
              [Element ''p'' [] [Text ''Text''],
               Element ''img'' [(''data-src'', ''https://example.com/lazy.jpg''), (''alt'', ''Lazy image'')] []]]]]"

definition white_space_names_doc :: document where
  "white_space_names_doc =
     [Element ''html'' []
        [Element ''body'' []
           [Element ''article'' []
              [Element ''p'' [(''x'' @ [CHR 0x0B] @ ''onclick'', ''alert(1)''),
                             (''y'' @ [CHR 0xA0] @ ''data-track'', ''1'')]
                 [Text ''t'']]]]]"

definition article_doc :: document where
  "article_doc =
     [Element ''html'' []
        [Element ''head'' [] [Element ''title'' [] [Text ''A story'']],
         Element ''body'' []
           [Element ''article'' []
              [Element ''h1'' [] [Text ''Title''],
               Element ''p'' [] [Text ''Hello'',
                 Element ''a'' [(''href'', ''/tag/programming'')] [Text ''Programming''],
                 Element ''a'' [(''href'', ''/tag/programming-2'')] [Text ''programming'']],
               Element ''img'' [(''src'', ''https://cdn.example.com/good.png''), (''alt'', ''Good'')] [],
               Element ''img'' [(''src'', ''https://cdn.example.com/page.html'')] []]]]]"

definition article_url :: string where
  "article_url = ''https://medium.com/@user/article-123''"

definition net_article :: network where
  "net_article n u =
     (if u = article_url
      then Inr \<lparr>status = 200, content_type = Some ''text/html'', content_length = None,
                body = Inr ''(the page)''\<rparr>
      else net_images n u)"

definition example_world :: world where
  "example_world =
     \<lparr>parseURL = example_parser, net = net_article,
      load = (\<lambda>html. if html = ''(the page)'' then article_doc else []),
      render = example_render, now = ''2026-11-03T10:00:00.000Z'', toBase64 = example_base64\<rparr>"

definition example_article :: Article where
  \<open>example_article =
     \<lparr>url = ''https://medium.com/@user/article-123'', title = ''Title'', subtitle = None,
      author = ''Unknown Author'', publishedDate = ''2026-11-03T10:00:00.000Z'',
      readingTime = None, tags = Some [''programming''],
      content = ''<h1>Title</h1><p>Hello<a href="/tag/programming">Programming</a><a href="/tag/programming-2">programming</a></p><img src="https://cdn.example.com/good.png" alt="Good"><img src="https://cdn.example.com/page.html">'',
      images =
        [\<lparr>originalUrl = ''https://cdn.example.com/good.png'',
          base64 = Some ''data:image/png;base64,UE5HIQ=='', alt = Some ''Good''\<rparr>,
         \<lparr>originalUrl = ''https://cdn.example.com/page.html'', base64 = None, alt = None\<rparr>]\<rparr>\<close>

definition net_page_only :: network where
  \<comment> \<open>the page is served as in \<open>net_article\<close>, every other request fails\<close>
  "net_page_only n u =
     (if u = article_url
      then Inr \<lparr>status = 200, content_type = Some ''text/html'', content_length = None,
                body = Inr ''(the page)''\<rparr>
      else Inl OtherError)"

definition offline_images_world :: world where
  "offline_images_world = example_world\<lparr>net := net_page_only, toBase64 := (\<lambda>bytes. [])\<rparr>"

definition accented_tags_doc :: document where
  \<comment> \<open>two tag links whose texts differ in case only, the last letter being U+00C9 and U+00E9\<close>
  "accented_tags_doc =
     [Element ''article'' []
        [Element ''a'' [(''href'', ''/tag/cafe'')] [Text (''CAF'' @ [CHR 0xC9])],
         Element ''a'' [(''href'', ''/tag/cafe-2'')] [Text (''caf'' @ [CHR 0xE9])]]]"

section \<open>Facts about URL validation\<close>

lemmas str_eval = toLowerCase_def lower_char_def upper_letters_def lower_letters_def

lemma lower_char_idem: "lower_char (lower_char c) = lower_char c"
  unfolding lower_char_def upper_letters_def lower_letters_def
  by (simp split: option.splits)

lemma toLowerCase_idem: "toLowerCase (toLowerCase s) = toLowerCase s"
  by (simp add: toLowerCase_def lower_char_idem)

lemma splitOn_nonempty: "splitOn d s \<noteq> []"
  by (induction s) (auto split: list.splits)

lemma splitOn_join: "concat (map (\<lambda>p. p @ [d]) (butlast (splitOn d s))) @ last (splitOn d s) = s"
proof (induction s)
  case Nil show ?case by simp
next
  case (Cons c cs)
  show ?case using Cons splitOn_nonempty[of d cs]
    by (auto split: list.splits)
qed

lemma splitOn_last_suffix: "suffix (last (splitOn d s)) s"
  by (metis splitOn_join suffixI)

lemma ipv4Match_last_digit:
  assumes "ipv4Match h = Some m"
  shows "h \<noteq> [] \<and> is_digit (last h)"
proof -
  let ?ps = "splitOn (CHR ''.'') h"
  from assms have all: "list_all (\<lambda>p. 1 \<le> length p \<and> length p \<le> 3 \<and> list_all is_digit p) ?ps"
    by (auto simp: ipv4Match_def Let_def split: if_splits)
  have ne: "?ps \<noteq> []" by (rule splitOn_nonempty)
  then have "last ?ps \<in> set ?ps" by simp
  with all have p: "last ?ps \<noteq> []" "list_all is_digit (last ?ps)"
    by (auto simp: list_all_iff)
  from splitOn_last_suffix[of "CHR ''.''" h] obtain zs where h: "h = zs @ last ?ps"
    by (auto simp: suffix_def)
  from p have "is_digit (last (last ?ps))" by (simp add: list_all_iff)
  with h p(1) show ?thesis by (metis append_is_Nil_conv last_appendR)
qed

lemma domain_last_not_digit:
  "d \<in> set MEDIUM_DOMAINS \<Longrightarrow> d \<noteq> [] \<and> \<not> is_digit (last d)"
  by (auto simp: MEDIUM_DOMAINS_def is_digit_def)

lemma digit_host_not_allowed:
  assumes "h \<noteq> []" "is_digit (last h)"
  shows "\<not> list_ex (\<lambda>domain. h = domain \<or> endsWith h (CHR ''.'' # domain)) MEDIUM_DOMAINS"
proof
  assume "list_ex (\<lambda>domain. h = domain \<or> endsWith h (CHR ''.'' # domain)) MEDIUM_DOMAINS"
  then obtain d where d: "d \<in> set MEDIUM_DOMAINS" and hd: "h = d \<or> endsWith h (CHR ''.'' # d)"
    unfolding list_ex_iff by blast
  from domain_last_not_digit[OF d] have ne: "d \<noteq> []" and nd: "\<not> is_digit (last d)" by simp_all
  from hd have "last h = last d"
  proof
    assume "h = d" then show ?thesis by simp
  next
    assume "endsWith h (CHR ''.'' # d)"
    then obtain zs where "h = zs @ CHR ''.'' # d" by (auto simp: endsWith_def suffix_def)
    with ne show ?thesis by simp
  qed
  with nd assms(2) show False by simp
qed

lemma allow_listed_iff:
  "spec_allow_listed h \<longleftrightarrow>
   list_ex (\<lambda>domain. h = domain \<or> endsWith h (CHR ''.'' # domain)) MEDIUM_DOMAINS"
  by (auto simp: spec_allow_listed_def list_ex_iff endsWith_def suffix_def)

lemma block8:
  assumes "b \<le> 255" "c \<le> 255" "d \<le> 255"
  shows "in_block (ip4 a b c d) (ip4 x 0 0 0) 8 \<longleftrightarrow> a = x"
proof -
  from assms have "(b * 256 + c) * 256 + d < 16777216" by simp
  moreover have "ip4 a b c d = a * 16777216 + ((b * 256 + c) * 256 + d)"
    by (simp add: ip4_def algebra_simps)
  ultimately have "ip4 a b c d div 16777216 = a" by simp
  moreover have "ip4 x 0 0 0 div 16777216 = x" by (simp add: ip4_def)
  ultimately show ?thesis by (simp add: in_block_def)
qed

lemma two_octets:
  assumes b: "b \<le> 255" and y: "y \<le> 255"
  shows "a * 256 + b = x * 256 + y \<longleftrightarrow> a = x \<and> b = (y::nat)"
proof
  assume e: "a * 256 + b = x * 256 + y"
  from b have 1: "(a * 256 + b) div 256 = a" by simp
  from y have 2: "(x * 256 + y) div 256 = x" by simp
  from e 1 2 have "a = x" by (simp only:)
  with e show "a = x \<and> b = y" by simp
next
  assume "a = x \<and> b = y" then show "a * 256 + b = x * 256 + y" by simp
qed

lemma block16:
  assumes "b \<le> 255" "c \<le> 255" "d \<le> 255" "y \<le> 255"
  shows "in_block (ip4 a b c d) (ip4 x y 0 0) 16 \<longleftrightarrow> a = x \<and> b = y"
proof -
  from assms have "c * 256 + d < 65536" by simp
  moreover have "ip4 a b c d = (a * 256 + b) * 65536 + (c * 256 + d)"
    by (simp add: ip4_def algebra_simps)
  ultimately have "ip4 a b c d div 65536 = a * 256 + b" by simp
  moreover have "ip4 x y 0 0 div 65536 = x * 256 + y" by (simp add: ip4_def)
  ultimately have "in_block (ip4 a b c d) (ip4 x y 0 0) 16 \<longleftrightarrow> a * 256 + b = x * 256 + y"
    by (simp add: in_block_def)
  with two_octets[OF assms(1) assms(4)] show ?thesis by (simp only:)
qed

lemma div16: "(a * 256 + b) div 16 = a * 16 + b div (16::nat)"
proof -
  have "(a * 16 * 16 + b) div 16 = a * 16 + b div 16" by (rule div_mult_self3) simp
  moreover have "a * 16 * 16 = a * 256" by simp
  ultimately show ?thesis by (simp only:)
qed

lemma sixteenths: "q \<le> 15 \<Longrightarrow> a * 16 + q = 2753 \<longleftrightarrow> a = 172 \<and> q = (1::nat)"
  by presburger

lemma block12:
  assumes "b \<le> 255" "c \<le> 255" "d \<le> 255"
  shows "in_block (ip4 a b c d) (ip4 172 16 0 0) 12 \<longleftrightarrow> a = 172 \<and> 16 \<le> b \<and> b \<le> 31"
proof -
  from assms have "c * 256 + d < 65536" by simp
  moreover have "ip4 a b c d = (a * 256 + b) * 65536 + (c * 256 + d)"
    by (simp add: ip4_def algebra_simps)
  ultimately have "ip4 a b c d div 65536 = a * 256 + b" by simp
  moreover have "ip4 a b c d div (65536 * 16) = (ip4 a b c d div 65536) div 16"
    by (rule div_mult2_eq)
  ultimately have "ip4 a b c d div 1048576 = (a * 256 + b) div 16" by simp
  moreover have "ip4 172 16 0 0 div 1048576 = 2753" by (simp add: ip4_def)
  ultimately have 1: "in_block (ip4 a b c d) (ip4 172 16 0 0) 12 \<longleftrightarrow> a * 16 + b div 16 = 2753"
    by (simp add: in_block_def div16)
  from assms have "b div 16 \<le> 15" by simp
  from sixteenths[OF this, of a] have 2: "a * 16 + b div 16 = 2753 \<longleftrightarrow> a = 172 \<and> b div 16 = 1" .
  have 3: "b div 16 = 1 \<longleftrightarrow> 16 \<le> b \<and> b \<le> 31" by auto
  from 1 2 3 show ?thesis by (simp only:)
qed

lemma private_blocks:
  assumes le: "b \<le> 255" "c \<le> 255" "d \<le> 255"
  shows "(in_block (ip4 a b c d) (ip4 127 0 0 0) 8 \<or> in_block (ip4 a b c d) (ip4 10 0 0 0) 8 \<or>
       in_block (ip4 a b c d) (ip4 172 16 0 0) 12 \<or> in_block (ip4 a b c d) (ip4 192 168 0 0) 16 \<or>
       in_block (ip4 a b c d) (ip4 169 254 0 0) 16 \<or> in_block (ip4 a b c d) (ip4 0 0 0 0) 8) \<longleftrightarrow>
      (a = 127 \<or> a = 10 \<or> (a = 172 \<and> b \<ge> 16 \<and> b \<le> 31) \<or>
         (a = 192 \<and> b = 168) \<or> (a = 169 \<and> b = 254) \<or> a = 0)"
proof -
  have 1: "in_block (ip4 a b c d) (ip4 127 0 0 0) 8 \<longleftrightarrow> a = 127" by (rule block8[OF le])
  have 2: "in_block (ip4 a b c d) (ip4 10 0 0 0) 8 \<longleftrightarrow> a = 10" by (rule block8[OF le])
  have 3: "in_block (ip4 a b c d) (ip4 172 16 0 0) 12 \<longleftrightarrow> a = 172 \<and> 16 \<le> b \<and> b \<le> 31"
    by (rule block12[OF le])
  have 4: "in_block (ip4 a b c d) (ip4 192 168 0 0) 16 \<longleftrightarrow> a = 192 \<and> b = 168"
    by (rule block16[OF le]) simp
  have 5: "in_block (ip4 a b c d) (ip4 169 254 0 0) 16 \<longleftrightarrow> a = 169 \<and> b = 254"
    by (rule block16[OF le]) simp
  have 6: "in_block (ip4 a b c d) (ip4 0 0 0 0) 8 \<longleftrightarrow> a = 0" by (rule block8[OF le])
  show ?thesis by (simp only: 1 2 3 4 5 6)
qed

lemma literal_private_iff:
  assumes "spec_ipv4_literal h = Some addr"
  shows "\<exists>m. ipv4Match h = Some m \<and>
     ((in_block addr (ip4 127 0 0 0) 8 \<or> in_block addr (ip4 10 0 0 0) 8 \<or>
       in_block addr (ip4 172 16 0 0) 12 \<or> in_block addr (ip4 192 168 0 0) 16 \<or>
       in_block addr (ip4 169 254 0 0) 16 \<or> in_block addr (ip4 0 0 0 0) 8) \<longleftrightarrow>
      (m ! 0 = 127 \<or> m ! 0 = 10 \<or> (m ! 0 = 172 \<and> m ! 1 \<ge> 16 \<and> m ! 1 \<le> 31) \<or>
         (m ! 0 = 192 \<and> m ! 1 = 168) \<or> (m ! 0 = 169 \<and> m ! 1 = 254) \<or> m ! 0 = 0))"
proof -
  let ?ps = "splitOn (CHR ''.'') h"
  let ?m = "map Number ?ps"
  from assms have len: "length ?ps = 4"
    and all: "list_all (\<lambda>p. 1 \<le> length p \<and> length p \<le> 3 \<and> list_all is_digit p \<and> Number p \<le> 255) ?ps"
    and addr: "addr = ip4 (Number (?ps ! 0)) (Number (?ps ! 1)) (Number (?ps ! 2)) (Number (?ps ! 3))"
    by (auto simp: spec_ipv4_literal_def ip4_def Let_def split: if_splits)
  from len have nth: "Number (?ps ! 0) = ?m ! 0" "Number (?ps ! 1) = ?m ! 1"
     "Number (?ps ! 2) = ?m ! 2" "Number (?ps ! 3) = ?m ! 3" by simp_all
  from len all have le: "?m ! 1 \<le> 255" "?m ! 2 \<le> 255" "?m ! 3 \<le> 255"
    by (simp_all add: list_all_length)
  from len all have m: "ipv4Match h = Some ?m"
    by (auto simp: ipv4Match_def Let_def list_all_iff)
  from addr nth have addr': "addr = ip4 (?m ! 0) (?m ! 1) (?m ! 2) (?m ! 3)" by (simp only:)
  show ?thesis
    apply (rule exI[of _ ?m])
    apply (rule conjI[OF m])
    unfolding addr' by (rule private_blocks[OF le])
qed

lemma ipv4Match_None: "ipv4Match h = None \<Longrightarrow> spec_ipv4_literal h = None"
  by (auto simp: spec_ipv4_literal_def ipv4Match_def Let_def list_all_iff split: if_splits)

lemma private_or_not_allowed:
  assumes low: "toLowerCase h = h"
  shows "isPrivateHost h \<or> \<not> spec_allow_listed h \<longleftrightarrow> spec_private_host h \<or> \<not> spec_allow_listed h"
proof (cases "ipv4Match h")
  case None
  then have "spec_ipv4_literal h = None" by (rule ipv4Match_None)
  with None low show ?thesis by (simp add: spec_private_host_def isPrivateHost_def Let_def)
next
  case (Some m)
  from ipv4Match_last_digit[OF Some] have "\<not> spec_allow_listed h"
    unfolding allow_listed_iff by (intro digit_host_not_allowed) simp_all
  then show ?thesis by simp
qed
lemma isPrivateHost_no_literal:
  assumes "toLowerCase h = h" and "ipv4Match h = None" 
  shows "isPrivateHost h = spec_private_host h"
  using assms ipv4Match_None[OF assms(2)]
  by (simp add: spec_private_host_def isPrivateHost_def Let_def)

lemma isPrivateHost_unfold:
  assumes low: "toLowerCase h = h" and m: "ipv4Match h = Some m" and
   eq: "P \<longleftrightarrow>
      (m ! 0 = 127 \<or> m ! 0 = 10 \<or> (m ! 0 = 172 \<and> m ! 1 \<ge> 16 \<and> m ! 1 \<le> 31) \<or>
         (m ! 0 = 192 \<and> m ! 1 = 168) \<or> (m ! 0 = 169 \<and> m ! 1 = 254) \<or> m ! 0 = 0)"
  shows "isPrivateHost h \<longleftrightarrow>
      (h = ''localhost'' \<or> h = ''localhost.localdomain'' \<or> P \<or> h = ''::1'' \<or> h = ''[::1]'')"
  unfolding isPrivateHost_def Let_def low m option.case eq[symmetric]
  by (simp only: if_bool_eq_disj simp_thms) blast

lemma spec_private_host_unfold:
  assumes "spec_ipv4_literal h = Some addr"
  shows "spec_private_host h \<longleftrightarrow>
      (h = ''localhost'' \<or> h = ''localhost.localdomain'' \<or>
       (in_block addr (ip4 127 0 0 0) 8 \<or> in_block addr (ip4 10 0 0 0) 8 \<or>
        in_block addr (ip4 172 16 0 0) 12 \<or> in_block addr (ip4 192 168 0 0) 16 \<or>
        in_block addr (ip4 169 254 0 0) 16 \<or> in_block addr (ip4 0 0 0 0) 8) \<or>
       h = ''::1'' \<or> h = ''[::1]'')"
  unfolding spec_private_host_def assms by (simp only: option.case)

lemma isPrivateHost_literal:
  assumes low: "toLowerCase h = h" and lit: "spec_ipv4_literal h = Some addr"
  shows "isPrivateHost h = spec_private_host h"
  using literal_private_iff[OF lit]
proof (elim exE conjE)
  fix m
  assume m: "ipv4Match h = Some m"
    and eq: "(in_block addr (ip4 127 0 0 0) 8 \<or> in_block addr (ip4 10 0 0 0) 8 \<or>
        in_block addr (ip4 172 16 0 0) 12 \<or> in_block addr (ip4 192 168 0 0) 16 \<or>
        in_block addr (ip4 169 254 0 0) 16 \<or> in_block addr (ip4 0 0 0 0) 8) \<longleftrightarrow>
      (m ! 0 = 127 \<or> m ! 0 = 10 \<or> (m ! 0 = 172 \<and> m ! 1 \<ge> 16 \<and> m ! 1 \<le> 31) \<or>
         (m ! 0 = 192 \<and> m ! 1 = 168) \<or> (m ! 0 = 169 \<and> m ! 1 = 254) \<or> m ! 0 = 0)"
  from isPrivateHost_unfold[OF low m eq] spec_private_host_unfold[OF lit]
  show ?thesis by (simp only:)
qed

lemma spec_private_imp_isPrivateHost:
  assumes sp: "spec_private_host h" and low: "toLowerCase h = h"
  shows "isPrivateHost h"
proof (cases "spec_ipv4_literal h")
  case None
  show ?thesis
  proof (cases "ipv4Match h")
    case None
    from isPrivateHost_no_literal[OF low None] sp show ?thesis by simp
  next
    case (Some m)
    from sp \<open>spec_ipv4_literal h = None\<close>
    have "h = ''localhost'' \<or> h = ''localhost.localdomain'' \<or> h = ''::1'' \<or> h = ''[::1]''"
      by (simp add: spec_private_host_def)
    then show ?thesis unfolding isPrivateHost_def Let_def low by presburger
  qed
next
  case (Some addr)
  with isPrivateHost_literal[OF low Some] sp show ?thesis by simp
qed

text \<open>
  C3. Validation either passes or fails with INVALID_URL, and it fails exactly when the URL is
  malformed, or its lower-cased host is localhost, localhost.localdomain, an IPv4 literal in
  one of the six private blocks or the IPv6 loopback, or the scheme is not https, or the host
  neither is nor is a subdomain of an allow-list entry. A private host is turned away by the
  private-host check itself, whatever the scheme.
\<close>

theorem validateMediumUrl_invalid_iff:
  "(validateMediumUrl parse input = Inr () \<or>
      (\<exists>msg. validateMediumUrl parse input = Inl (ScraperException INVALID_URL msg))) \<and>
   ((\<exists>msg. validateMediumUrl parse input = Inl (ScraperException INVALID_URL msg))
      \<longleftrightarrow> spec_invalid_url parse input) \<and>
   (\<forall>u. parse input = Some u \<and> spec_private_host (toLowerCase (hostname u)) \<longrightarrow>
      validateMediumUrl parse input =
        Inl (ScraperException INVALID_URL ''Private or internal URLs are not allowed''))"
proof (cases "parse input")
  case None
  then show ?thesis by (simp add: validateMediumUrl_def spec_invalid_url_def)
next
  case (Some u)
  let ?h = "toLowerCase (hostname u)"
  have low: "toLowerCase ?h = ?h" by (rule toLowerCase_idem)
  have inv: "spec_invalid_url parse input \<longleftrightarrow>
     isPrivateHost ?h \<or> protocol u \<noteq> ''https:'' \<or> \<not> spec_allow_listed ?h"
    using private_or_not_allowed[OF low] by (auto simp: spec_invalid_url_def Some)
  have priv: "spec_private_host ?h \<Longrightarrow> isPrivateHost ?h"
    by (rule spec_private_imp_isPrivateHost[OF _ low])
  show ?thesis
    unfolding inv using priv
    by (auto simp: validateMediumUrl_def Some Let_def allow_listed_iff)
qed

theorem validateMediumUrl_invalid_iff_witness:
  "validateMediumUrl example_parser ''https://medium.com/@user/article-123'' = Inr () \<and>
   \<not> spec_invalid_url example_parser ''https://medium.com/@user/article-123'' \<and>
   validateMediumUrl example_parser ''http://127.0.0.1/admin'' =
     Inl (ScraperException INVALID_URL ''Private or internal URLs are not allowed'') \<and>
   spec_invalid_url example_parser ''http://127.0.0.1/admin'' \<and>
   spec_invalid_url example_parser ''not-a-url''"
proof -
  have ok: "validateMediumUrl example_parser ''https://medium.com/@user/article-123'' = Inr ()"
    by (simp add: example_parser_def validateMediumUrl_def isPrivateHost_def ipv4Match_def
          str_eval MEDIUM_DOMAINS_def endsWith_def Let_def)
  have p: "example_parser ''http://127.0.0.1/admin'' = Some \<lparr>protocol = ''http:'', hostname = ''127.0.0.1''\<rparr>
      \<and> spec_private_host (toLowerCase (hostname \<lparr>protocol = ''http:'', hostname = ''127.0.0.1''\<rparr>))"
    by (simp add: example_parser_def spec_private_host_def spec_ipv4_literal_def str_eval
          Let_def is_digit_def Number_def digit_val_def in_block_def ip4_def)
  have bad: "validateMediumUrl example_parser ''not-a-url'' =
     Inl (ScraperException INVALID_URL (ERROR_MESSAGES INVALID_URL))"
    by (simp add: example_parser_def validateMediumUrl_def)
  from ok validateMediumUrl_invalid_iff[of example_parser "''https://medium.com/@user/article-123''"]
  have 1: "\<not> spec_invalid_url example_parser ''https://medium.com/@user/article-123''" by simp
  from p validateMediumUrl_invalid_iff[of example_parser "''http://127.0.0.1/admin''"]
  have 2: "validateMediumUrl example_parser ''http://127.0.0.1/admin'' =
     Inl (ScraperException INVALID_URL ''Private or internal URLs are not allowed'')" by blast
  with validateMediumUrl_invalid_iff[of example_parser "''http://127.0.0.1/admin''"]
  have 3: "spec_invalid_url example_parser ''http://127.0.0.1/admin''" by blast
  from bad validateMediumUrl_invalid_iff[of example_parser "''not-a-url''"]
  have 4: "spec_invalid_url example_parser ''not-a-url''" by blast
  from ok 1 2 3 4 show ?thesis by (simp only: simp_thms)
qed

section \<open>The page fetcher\<close>

text \<open>
  C7. One request is issued, whatever comes of it. A 404 fails with NOT_FOUND, any other status
  outside 200..299 with NETWORK_ERROR, an abort with TIMEOUT, any other failure of the request or
  of reading the body with NETWORK_ERROR; on a success status the body text is returned. Nothing
  else can come out.
\<close>

theorem fetchHtml_outcomes:
  "snd (fetchHtml nw log u) = log @ [u] \<and>
   (\<forall>r. nw (length log) u = Inr r \<and> status r = 404 \<longrightarrow>
      fst (fetchHtml nw log u) = Inl (ScraperException NOT_FOUND (ERROR_MESSAGES NOT_FOUND))) \<and>
   (\<forall>r. nw (length log) u = Inr r \<and> status r \<noteq> 404 \<and> \<not> ok r \<longrightarrow>
      fst (fetchHtml nw log u) = Inl (ScraperException NETWORK_ERROR (ERROR_MESSAGES NETWORK_ERROR))) \<and>
   (nw (length log) u = Inl AbortError \<longrightarrow>
      fst (fetchHtml nw log u) = Inl (ScraperException TIMEOUT (ERROR_MESSAGES TIMEOUT))) \<and>
   (nw (length log) u = Inl OtherError \<longrightarrow>
      fst (fetchHtml nw log u) = Inl (ScraperException NETWORK_ERROR (ERROR_MESSAGES NETWORK_ERROR))) \<and>
   (\<forall>r t. nw (length log) u = Inr r \<and> ok r \<and> body r = Inr t \<longrightarrow>
      fst (fetchHtml nw log u) = Inr t) \<and>
   (\<forall>r. nw (length log) u = Inr r \<and> ok r \<and> body r = Inl AbortError \<longrightarrow>
      fst (fetchHtml nw log u) = Inl (ScraperException TIMEOUT (ERROR_MESSAGES TIMEOUT))) \<and>
   (\<forall>r. nw (length log) u = Inr r \<and> ok r \<and> body r = Inl OtherError \<longrightarrow>
      fst (fetchHtml nw log u) = Inl (ScraperException NETWORK_ERROR (ERROR_MESSAGES NETWORK_ERROR))) \<and>
   ((\<exists>t. fst (fetchHtml nw log u) = Inr t) \<or>
    (\<exists>e. fst (fetchHtml nw log u) = Inl e \<and> code e \<in> {NOT_FOUND, NETWORK_ERROR, TIMEOUT}))"
  by (auto simp: fetchHtml_def fetchHtml_catch_def ok_def split: sum.splits fetch_error.splits)

theorem fetchHtml_outcomes_witness:
  "fetchHtml net_404 [] ''https://medium.com/a'' =
     (Inl (ScraperException NOT_FOUND (ERROR_MESSAGES NOT_FOUND)), [''https://medium.com/a'']) \<and>
   fetchHtml net_500 [] ''https://medium.com/a'' =
     (Inl (ScraperException NETWORK_ERROR (ERROR_MESSAGES NETWORK_ERROR)), [''https://medium.com/a'']) \<and>
   fetchHtml net_timeout [] ''https://medium.com/a'' =
     (Inl (ScraperException TIMEOUT (ERROR_MESSAGES TIMEOUT)), [''https://medium.com/a'']) \<and>
   fetchHtml net_down [] ''https://medium.com/a'' =
     (Inl (ScraperException NETWORK_ERROR (ERROR_MESSAGES NETWORK_ERROR)), [''https://medium.com/a'']) \<and>
   fetchHtml net_page [] ''https://medium.com/a'' = (Inr ''<h1>Title</h1>'', [''https://medium.com/a''])"
proof -
  let ?u = "''https://medium.com/a''"
  have a: "fetchHtml net_404 [] ?u =
     (Inl (ScraperException NOT_FOUND (ERROR_MESSAGES NOT_FOUND)), [?u])"
    using fetchHtml_outcomes[of net_404 "[]" ?u]
    by (simp add: net_404_def prod_eq_iff)
  have b: "fetchHtml net_500 [] ?u =
     (Inl (ScraperException NETWORK_ERROR (ERROR_MESSAGES NETWORK_ERROR)), [?u])"
    using fetchHtml_outcomes[of net_500 "[]" ?u]
    by (simp add: net_500_def ok_def prod_eq_iff)
  have c: "fetchHtml net_timeout [] ?u =
     (Inl (ScraperException TIMEOUT (ERROR_MESSAGES TIMEOUT)), [?u])"
    using fetchHtml_outcomes[of net_timeout "[]" ?u]
    by (simp add: net_timeout_def prod_eq_iff)
  have d: "fetchHtml net_down [] ?u =
     (Inl (ScraperException NETWORK_ERROR (ERROR_MESSAGES NETWORK_ERROR)), [?u])"
    using fetchHtml_outcomes[of net_down "[]" ?u]
    by (simp add: net_down_def prod_eq_iff)
  have e: "fetchHtml net_page [] ?u = (Inr ''<h1>Title</h1>'', [?u])"
    using fetchHtml_outcomes[of net_page "[]" ?u]
    by (simp add: net_page_def ok_def prod_eq_iff)
  from a b c d e show ?thesis by (simp only: simp_thms)
qed

section \<open>The paywall check\<close>










section \<open>The published date\<close>

lemma publishedDate_selector_texts:
  \<open>map sel_text CSS_SELECTORS_publishedDate =
     [''time[datetime]'', ''meta[property="article:published_time"]'']\<close>
  by (simp add: CSS_SELECTORS_publishedDate_def)

lemma publishedDate_selectors_include_time:
  "list_all (\<lambda>sel. str_includes (sel_text sel) ''time'') CSS_SELECTORS_publishedDate"
  by code_simp

text \<open>
  Both selectors of the table contain the letters \<open>time\<close>, the second one inside
  \<open>article:published_time\<close>. The branch that reads \<open>content\<close> is therefore never taken: the
  loop reads \<open>datetime\<close> from the first match of either selector.
\<close>

lemma publishedDate_loop_reads_datetime:
  "publishedDate_loop doc CSS_SELECTORS_publishedDate [] =
     (let from_time = (case select (CSS_SELECTORS_publishedDate ! 0) doc of
                         [] \<Rightarrow> [] | e # _ \<Rightarrow> or_empty (attr e ''datetime''))
      in if from_time \<noteq> [] then from_time
         else (case select (CSS_SELECTORS_publishedDate ! 1) doc of
                 [] \<Rightarrow> [] | e # _ \<Rightarrow> or_empty (attr e ''datetime'')))"
proof -
  obtain s1 s2 where s: "CSS_SELECTORS_publishedDate = [s1, s2]"
    by (simp add: CSS_SELECTORS_publishedDate_def)
  from publishedDate_selectors_include_time[unfolded s]
  have i: "str_includes (sel_text s1) ''time''" "str_includes (sel_text s2) ''time''" by simp_all
  show ?thesis unfolding s
    by (simp add: i Let_def split: list.splits)
qed

text \<open>
  C2, at a page with no \<open>time\<close> element and a \<open>meta\<close> element carrying the date in \<open>content\<close>:
  the meta element is found, its \<open>content\<close> is there, and the published date is the clock's.
\<close>

theorem extractMetadata_ignores_meta_content:
  "select (CSS_SELECTORS_publishedDate ! 0) meta_date_doc = [] \<and>
   map (\<lambda>e. attr e ''content'') (select (CSS_SELECTORS_publishedDate ! 1) meta_date_doc)
     = [Some ''2026-01-01''] \<and>
   map_sum code publishedDate (extractMetadata meta_date_doc ''https://medium.com/a'' ''2026-11-03T10:00:00.000Z'')
     = Inr ''2026-11-03T10:00:00.000Z'' \<and>
   map_sum code publishedDate (extractMetadata time_date_doc ''https://medium.com/a'' ''2026-11-03T10:00:00.000Z'')
     = Inr ''2026-02-07T12:00:00Z''"
  by code_simp

section \<open>The image downloader\<close>

lemma downloadImage_log: "snd (downloadImage enc nw log u) = log @ [u]"
  by (simp add: downloadImage_def)

lemma download_each_Cons:
  "download_each enc nw log (d # ds) =
     (\<lparr>originalUrl = image_url d, base64 = fst (downloadImage enc nw log (image_url d)),
       alt = image_alt d\<rparr> # fst (download_each enc nw (log @ [image_url d]) ds),
      snd (download_each enc nw (log @ [image_url d]) ds))"
  by (simp add: Let_def downloadImage_def split: prod.splits)

lemma download_each_length:
  "length (fst (download_each enc nw log ds)) = length ds"
  by (induction ds arbitrary: log) (simp_all add: download_each_Cons del: download_each.simps(2))

lemma download_each_log:
  "snd (download_each enc nw log ds) = log @ map image_url ds"
  by (induction ds arbitrary: log) (simp_all add: download_each_Cons del: download_each.simps(2))

lemma download_each_nth:
  "i < length ds \<Longrightarrow>
   fst (download_each enc nw log ds) ! i =
     \<lparr>originalUrl = image_url (ds ! i),
      base64 = fst (downloadImage enc nw (log @ map image_url (take i ds)) (image_url (ds ! i))),
      alt = image_alt (ds ! i)\<rparr>"
proof (induction ds arbitrary: log i)
  case Nil
  then show ?case by simp
next
  case (Cons d ds)
  show ?case
  proof (cases i)
    case 0
    then show ?thesis by (simp add: download_each_Cons del: download_each.simps(2))
  next
    case (Suc j)
    with Cons.prems have j: "j < length ds" by simp
    from Cons.IH[OF j, of "log @ [image_url d]"] Suc show ?thesis
      by (simp add: download_each_Cons del: download_each.simps(2))
  qed
qed

lemma downloadAllImages_length:
  "length (fst (downloadAllImages enc nw log ds)) = min 50 (length ds)"
  by (simp add: downloadAllImages_def MAX_IMAGES_PER_ARTICLE_def download_each_length)

lemma downloadImage_failures:
  "(nw (length log) u = Inl e \<longrightarrow> fst (downloadImage enc nw log u) = None) \<and>
   (nw (length log) u = Inr r \<and> \<not> ok r \<longrightarrow> fst (downloadImage enc nw log u) = None) \<and>
   (nw (length log) u = Inr r \<and> content_type r = Some ct \<and> ct \<noteq> [] \<and> \<not> startsWith ct ''image/''
      \<longrightarrow> fst (downloadImage enc nw log u) = None) \<and>
   (nw (length log) u = Inr r \<and> content_length r = Some cl \<and> parseInt cl = Some n \<and>
      n > int MAX_IMAGE_SIZE_BYTES \<longrightarrow> fst (downloadImage enc nw log u) = None) \<and>
   (nw (length log) u = Inr r \<and> body r = Inr bytes \<and> length bytes > MAX_IMAGE_SIZE_BYTES
      \<longrightarrow> fst (downloadImage enc nw log u) = None) \<and>
   (nw (length log) u = Inr r \<and> body r = Inl e \<longrightarrow> fst (downloadImage enc nw log u) = None)"
  by (auto simp: downloadImage_def downloadImage_try_def Let_def truthy_def or_empty_def parseInt_def
           split: sum.splits option.splits if_splits)

text \<open>
  C5. \<open>downloadAllImages\<close> returns one entry for each of the first 50 candidates, in their
  order, with the candidate's URL and alt text; the entry's \<open>base64\<close> is what the download of
  that candidate alone came to, and is undefined whenever the request fails, the status is
  not a success, the content type is not an image, the announced or the received size exceeds
  5 MiB, or reading the body fails. The function has no failing outcome of its own.
\<close>

theorem downloadAllImages_entries:
  "length (fst (downloadAllImages enc nw log ds)) = min 50 (length ds) \<and>
   snd (downloadAllImages enc nw log ds) = log @ map image_url (take 50 ds) \<and>
   (\<forall>i < min 50 (length ds).
      originalUrl (fst (downloadAllImages enc nw log ds) ! i) = image_url (ds ! i) \<and>
      alt (fst (downloadAllImages enc nw log ds) ! i) = image_alt (ds ! i) \<and>
      base64 (fst (downloadAllImages enc nw log ds) ! i) =
        fst (downloadImage enc nw (log @ map image_url (take i ds)) (image_url (ds ! i)))) \<and>
   (\<forall>lg u r e ct cl n bytes.
      (nw (length lg) u = Inl e \<longrightarrow> fst (downloadImage enc nw lg u) = None) \<and>
      (nw (length lg) u = Inr r \<and> \<not> ok r \<longrightarrow> fst (downloadImage enc nw lg u) = None) \<and>
      (nw (length lg) u = Inr r \<and> content_type r = Some ct \<and> ct \<noteq> [] \<and>
         \<not> startsWith ct ''image/'' \<longrightarrow> fst (downloadImage enc nw lg u) = None) \<and>
      (nw (length lg) u = Inr r \<and> content_length r = Some cl \<and> parseInt cl = Some n \<and>
         n > int MAX_IMAGE_SIZE_BYTES \<longrightarrow> fst (downloadImage enc nw lg u) = None) \<and>
      (nw (length lg) u = Inr r \<and> body r = Inr bytes \<and> length bytes > MAX_IMAGE_SIZE_BYTES
         \<longrightarrow> fst (downloadImage enc nw lg u) = None) \<and>
      (nw (length lg) u = Inr r \<and> body r = Inl e \<longrightarrow> fst (downloadImage enc nw lg u) = None)) \<and>
   (length ds = 60 \<longrightarrow> length (fst (downloadAllImages enc nw log ds)) = 50)"
proof -
  let ?xs = "take 50 ds"
  have len: "length ?xs = min 50 (length ds)" by simp
  have nth: "?xs ! i = ds ! i" "take i ?xs = take i ds" if "i < min 50 (length ds)" for i
  proof -
    from that have "i < 50" by simp
    then show "?xs ! i = ds ! i" by simp
    from \<open>i < 50\<close> show "take i ?xs = take i ds" by (simp add: min_def)
  qed
  have 1: "length (fst (downloadAllImages enc nw log ds)) = min 50 (length ds)"
    by (rule downloadAllImages_length)
  have 2: "snd (downloadAllImages enc nw log ds) = log @ map image_url (take 50 ds)"
    by (simp add: downloadAllImages_def MAX_IMAGES_PER_ARTICLE_def download_each_log)
  have 3: "fst (downloadAllImages enc nw log ds) ! i =
      \<lparr>originalUrl = image_url (ds ! i),
       base64 = fst (downloadImage enc nw (log @ map image_url (take i ds)) (image_url (ds ! i))),
       alt = image_alt (ds ! i)\<rparr>" if "i < min 50 (length ds)" for i
  proof -
    from that have "i < length ?xs" by simp
    from download_each_nth[OF this, of enc nw log] nth[OF that] show ?thesis
      by (simp add: downloadAllImages_def MAX_IMAGES_PER_ARTICLE_def Let_def)
  qed
  have e3: "\<forall>i < min 50 (length ds).
      originalUrl (fst (downloadAllImages enc nw log ds) ! i) = image_url (ds ! i) \<and>
      alt (fst (downloadAllImages enc nw log ds) ! i) = image_alt (ds ! i) \<and>
      base64 (fst (downloadAllImages enc nw log ds) ! i) =
        fst (downloadImage enc nw (log @ map image_url (take i ds)) (image_url (ds ! i)))"
    using 3 by simp
  have 4: "\<forall>lg u r e ct cl n bytes.
      (nw (length lg) u = Inl e \<longrightarrow> fst (downloadImage enc nw lg u) = None) \<and>
      (nw (length lg) u = Inr r \<and> \<not> ok r \<longrightarrow> fst (downloadImage enc nw lg u) = None) \<and>
      (nw (length lg) u = Inr r \<and> content_type r = Some ct \<and> ct \<noteq> [] \<and>
         \<not> startsWith ct ''image/'' \<longrightarrow> fst (downloadImage enc nw lg u) = None) \<and>
      (nw (length lg) u = Inr r \<and> content_length r = Some cl \<and> parseInt cl = Some n \<and>
         n > int MAX_IMAGE_SIZE_BYTES \<longrightarrow> fst (downloadImage enc nw lg u) = None) \<and>
      (nw (length lg) u = Inr r \<and> body r = Inr bytes \<and> length bytes > MAX_IMAGE_SIZE_BYTES
         \<longrightarrow> fst (downloadImage enc nw lg u) = None) \<and>
      (nw (length lg) u = Inr r \<and> body r = Inl e \<longrightarrow> fst (downloadImage enc nw lg u) = None)"
    by (intro allI) (rule downloadImage_failures)
  have 5: "length ds = 60 \<longrightarrow> length (fst (downloadAllImages enc nw log ds)) = 50"
    using 1 by simp
  from 1 2 e3 4 5 show ?thesis by (intro conjI)
qed

theorem downloadAllImages_entries_witness:
  "length (fst (downloadAllImages example_base64 net_images [] sixty_images)) = 50 \<and>
   originalUrl (fst (downloadAllImages example_base64 net_images [] sixty_images) ! 49)
     = image_url (sixty_images ! 49) \<and>
   fst (downloadImage example_base64 net_images [] ''https://cdn.example.com/huge.png'') = None \<and>
   fst (downloadImage example_base64 net_images [] ''https://cdn.example.com/page.html'') = None \<and>
   fst (downloadImage example_base64 net_images [] ''https://cdn.example.com/gone.png'') = None \<and>
   fst (downloadAllImages example_base64 net_images [] three_images) =
     [\<lparr>originalUrl = ''https://cdn.example.com/good.png'',
       base64 = Some ''data:image/png;base64,UE5HIQ=='', alt = Some ''Good''\<rparr>,
      \<lparr>originalUrl = ''https://cdn.example.com/huge.png'', base64 = None, alt = Some ''Huge''\<rparr>,
      \<lparr>originalUrl = ''https://cdn.example.com/page.html'', base64 = None, alt = None\<rparr>]"
proof -
  note inst = downloadAllImages_entries[of example_base64 net_images "[]" sixty_images]
  have l: "length sixty_images = 60" by (simp add: sixty_images_def)
  from l inst have a: "length (fst (downloadAllImages example_base64 net_images [] sixty_images)) = 50"
    by blast
  from l inst
  have b: "originalUrl (fst (downloadAllImages example_base64 net_images [] sixty_images) ! 49)
     = image_url (sixty_images ! 49)"
    by simp
  have huge: "net_images (length ([]::string list)) ''https://cdn.example.com/huge.png'' =
        Inr \<lparr>status = 200, content_type = Some ''image/png'', content_length = Some ''6291456'',
             body = Inr []\<rparr> \<and>
      content_length \<lparr>status = 200, content_type = Some ''image/png'',
             content_length = Some ''6291456'', body = Inr []\<rparr> = Some ''6291456'' \<and>
      parseInt ''6291456'' = Some 6291456 \<and> (6291456::int) > int MAX_IMAGE_SIZE_BYTES"
    by (simp add: net_images_def parseInt_def startsWith_def is_space_def is_digit_def Number_def
          digit_val_def MAX_IMAGE_SIZE_BYTES_def Let_def)
  from huge inst
  have c: "fst (downloadImage example_base64 net_images [] ''https://cdn.example.com/huge.png'') = None"
    by blast
  have page: "net_images (length ([]::string list)) ''https://cdn.example.com/page.html'' =
        Inr \<lparr>status = 200, content_type = Some ''text/html'', content_length = None,
             body = Inr ''<p>no</p>''\<rparr> \<and>
      content_type \<lparr>status = 200, content_type = Some ''text/html'', content_length = None,
             body = Inr ''<p>no</p>''\<rparr> = Some ''text/html'' \<and>
      ''text/html'' \<noteq> [] \<and> \<not> startsWith ''text/html'' ''image/''"
    by (simp add: net_images_def startsWith_def)
  from page inst
  have d: "fst (downloadImage example_base64 net_images [] ''https://cdn.example.com/page.html'') = None"
    by blast
  have gone: "net_images (length ([]::string list)) ''https://cdn.example.com/gone.png'' = Inl OtherError"
    by (simp add: net_images_def)
  from gone inst
  have e: "fst (downloadImage example_base64 net_images [] ''https://cdn.example.com/gone.png'') = None"
    by blast
  have f: "fst (downloadAllImages example_base64 net_images [] three_images) =
     [\<lparr>originalUrl = ''https://cdn.example.com/good.png'',
       base64 = Some ''data:image/png;base64,UE5HIQ=='', alt = Some ''Good''\<rparr>,
      \<lparr>originalUrl = ''https://cdn.example.com/huge.png'', base64 = None, alt = Some ''Huge''\<rparr>,
      \<lparr>originalUrl = ''https://cdn.example.com/page.html'', base64 = None, alt = None\<rparr>]"
    by code_simp
  from a b c d e f show ?thesis by (intro conjI)
qed

section \<open>Image extraction\<close>

lemma keep_first_subset: "set (keep_first key xs) \<subseteq> set xs"
  by (induction key xs rule: keep_first.induct) auto

lemma keep_first_keys_distinct: "distinct (map key (keep_first key xs))"
proof (induction key xs rule: keep_first.induct)
  case (1 key)
  show ?case by simp
next
  case (2 key x xs)
  from keep_first_subset[of key "filter (\<lambda>y. key y \<noteq> key x) xs"]
  have "key x \<notin> key ` set (keep_first key (filter (\<lambda>y. key y \<noteq> key x) xs))"
    by fastforce
  with 2 show ?case by simp
qed

lemma fold_add_image:
  "fold add_image els (acc, seen) =
     (acc @ map to_image (filter (\<lambda>e. accepted_source (image_source e))
               (keep_first image_source
                  (filter (\<lambda>e. image_source e \<noteq> [] \<and> image_source e \<notin> seen) els))),
      seen \<union> {s \<in> image_source ` set els. s \<noteq> []})"
proof (induction els arbitrary: acc seen)
  case Nil
  show ?case by simp
next
  case (Cons e es)
  let ?s = "image_source e"
  let ?P = "\<lambda>seen e. image_source e \<noteq> [] \<and> image_source e \<notin> seen"
  have src: "truthy (js_or (attr e ''src'') (attr e ''data-src'')) \<longleftrightarrow> ?s \<noteq> []"
    by (auto simp: image_source_def js_or_def truthy_def or_empty_def split: option.splits)
  show ?case
  proof (cases "?s \<noteq> [] \<and> ?s \<notin> seen")
    case True
    let ?acc = "acc @ (if accepted_source ?s then [to_image e] else [])"
    have f: "filter (\<lambda>y. image_source y \<noteq> ?s) (filter (?P seen) es) = filter (?P (insert ?s seen)) es"
      by (auto intro: filter_cong)
    have "filter (?P seen) (e # es) = e # filter (?P seen) es" using True by simp
    then have kf: "keep_first image_source (filter (?P seen) (e # es)) =
        e # keep_first image_source (filter (?P (insert ?s seen)) es)"
      by (simp only: keep_first.simps f)
    have step: "add_image e (acc, seen) = (?acc, insert ?s seen)"
      using True src
      by (simp add: add_image_def Let_def accepted_source_def to_image_def rewritten_def
            image_source_def)
    have "fold add_image (e # es) (acc, seen) = fold add_image es (?acc, insert ?s seen)"
      by (simp add: step)
    also have "\<dots> = (?acc @ map to_image (filter (\<lambda>e. accepted_source (image_source e))
               (keep_first image_source (filter (?P (insert ?s seen)) es))),
          insert ?s seen \<union> {s \<in> image_source ` set es. s \<noteq> []})"
      by (rule Cons.IH)
    also have "\<dots> = (acc @ map to_image (filter (\<lambda>e. accepted_source (image_source e))
               (keep_first image_source (filter (?P seen) (e # es)))),
          seen \<union> {s \<in> image_source ` set (e # es). s \<noteq> []})"
      unfolding kf using True by auto
    finally show ?thesis .
  next
    case False
    then have step: "add_image e (acc, seen) = (acc, seen)"
      using src by (auto simp: add_image_def Let_def image_source_def)
    have "fold add_image (e # es) (acc, seen) = fold add_image es (acc, seen)"
      by (simp add: step)
    also have "\<dots> = (acc @ map to_image (filter (\<lambda>e. accepted_source (image_source e))
               (keep_first image_source (filter (?P seen) es))),
          seen \<union> {s \<in> image_source ` set es. s \<noteq> []})"
      by (rule Cons.IH)
    also have "\<dots> = (acc @ map to_image (filter (\<lambda>e. accepted_source (image_source e))
               (keep_first image_source (filter (?P seen) (e # es)))),
          seen \<union> {s \<in> image_source ` set (e # es). s \<noteq> []})"
      using False by auto
    finally show ?thesis .
  qed
qed

text \<open>
  C4 as stated fails: the set of sources already seen holds the sources as written, before a
  protocol-relative one is made absolute, so a protocol-relative source and its absolute
  twin both get in, with the same URL.
\<close>

theorem extractImages_twin_counterexample:
  "extractImages protocol_relative_twin_doc [tag_sel ''article''] =
     [\<lparr>image_url = ''https://cdn.example.com/a.jpg'', image_alt = Some ''First''\<rparr>,
      \<lparr>image_url = ''https://cdn.example.com/a.jpg'', image_alt = Some ''Second''\<rparr>] \<and>
   \<not> distinct (map image_url (extractImages protocol_relative_twin_doc [tag_sel ''article'']))"
  by code_simp

text \<open>
  C4, amended. \<open>extractImages\<close> deduplicates by the source as written (\<open>src\<close>, or \<open>data-src\<close>
  when \<open>src\<close> is missing or empty): of the image elements with a non-empty source it keeps the
  first for each source, in document order, then drops the sources that start neither with
  \<open>http\<close> nor with \<open>//\<close>, and makes the protocol-relative ones absolute; an entry carries the
  alt text of the element kept. Two image elements with the same non-empty \<open>src\<close>, absolute or
  protocol-relative, give one entry with the first element's alt text.
\<close>

theorem extractImages_by_source:
  "extractImages doc sel =
     map to_image
       (filter (\<lambda>e. accepted_source (image_source e))
          (keep_first image_source
             (filter (\<lambda>e. image_source e \<noteq> []) (select_find sel (tag_sel ''img'') doc)))) \<and>
   distinct (map image_source
       (keep_first image_source
          (filter (\<lambda>e. image_source e \<noteq> []) (select_find sel (tag_sel ''img'') doc)))) \<and>
   (\<forall>e1 e2 s. select_find sel (tag_sel ''img'') doc = [e1, e2] \<and>
        attr e1 ''src'' = Some s \<and> attr e2 ''src'' = Some s \<and> s \<noteq> [] \<and> accepted_source s \<longrightarrow>
      extractImages doc sel =
        [\<lparr>image_url = rewritten s,
          image_alt = (if truthy (attr e1 ''alt'') then attr e1 ''alt'' else None)\<rparr>])"
proof -
  have 1: "extractImages doc sel =
     map to_image
       (filter (\<lambda>e. accepted_source (image_source e))
          (keep_first image_source
             (filter (\<lambda>e. image_source e \<noteq> []) (select_find sel (tag_sel ''img'') doc))))"
    by (simp add: extractImages_def fold_add_image)
  have 2: "extractImages doc sel =
        [\<lparr>image_url = rewritten s,
          image_alt = (if truthy (attr e1 ''alt'') then attr e1 ''alt'' else None)\<rparr>]"
    if "select_find sel (tag_sel ''img'') doc = [e1, e2]" "attr e1 ''src'' = Some s"
       "attr e2 ''src'' = Some s" "s \<noteq> []" "accepted_source s" for e1 e2 s
  proof -
    from that have "image_source e1 = s" "image_source e2 = s"
      by (simp_all add: image_source_def js_or_def truthy_def or_empty_def)
    with that show ?thesis unfolding 1 by (simp add: to_image_def)
  qed
  from 1 2 keep_first_keys_distinct show ?thesis by blast
qed

theorem extractImages_by_source_witness:
  "extractImages same_src_doc [tag_sel ''article''] =
     [\<lparr>image_url = ''https://example.com/same.jpg'', image_alt = Some ''First''\<rparr>]"
proof -
  let ?e1 = "Element ''img'' [(''src'', ''https://example.com/same.jpg''), (''alt'', ''First'')] []"
  let ?e2 = "Element ''img'' [(''src'', ''https://example.com/same.jpg''), (''alt'', ''Duplicate'')] []"
  have h: "select_find [tag_sel ''article''] (tag_sel ''img'') same_src_doc = [?e1, ?e2] \<and>
        attr ?e1 ''src'' = Some ''https://example.com/same.jpg'' \<and>
        attr ?e2 ''src'' = Some ''https://example.com/same.jpg'' \<and>
        ''https://example.com/same.jpg'' \<noteq> [] \<and> accepted_source ''https://example.com/same.jpg''"
    by code_simp
  have r: "rewritten ''https://example.com/same.jpg'' = ''https://example.com/same.jpg''"
    "truthy (attr ?e1 ''alt'')" "attr ?e1 ''alt'' = Some ''First''"
    by code_simp+
  from h extractImages_by_source[of same_src_doc "[tag_sel ''article'']"]
  have "extractImages same_src_doc [tag_sel ''article''] =
        [\<lparr>image_url = rewritten ''https://example.com/same.jpg'',
          image_alt = (if truthy (attr ?e1 ''alt'') then attr ?e1 ''alt'' else None)\<rparr>]"
    by blast
  with r show ?thesis by (simp only: if_True)
qed

section \<open>Attribute names that hold white space\<close>

text \<open>
  C8, at a page where a paragraph has an attribute whose name is \<open>x\<close>, a vertical tab and
  \<open>onclick\<close>, and one whose name is \<open>y\<close>, a no-break space and \<open>data-track\<close>: neither name is
  white space to the HTML parser, neither starts with \<open>on\<close> or \<open>data-\<close>, so both attributes
  reach the serializer; the white-space pass over the markup then turns the vertical tab and
  the no-break space into spaces, and the string returned has an \<open>onclick\<close> and a
  \<open>data-track\<close> attribute.
\<close>

theorem cleanHtml_keeps_white_space_names:
  \<open>map (\<lambda>e. (tag_name e, attribs_of e)) (output_elements white_space_names_doc [tag_sel ''article'']) =
     [(''p'', [(''x'' @ [CHR 0x0B] @ ''onclick'', ''alert(1)''),
              (''y'' @ [CHR 0xA0] @ ''data-track'', ''1'')])] \<and>
   example_render (cleaned_content white_space_names_doc [tag_sel ''article'']) =
     ''<p x'' @ [CHR 0x0B] @ ''onclick="alert(1)" y'' @ [CHR 0xA0] @ ''data-track="1">t</p>'' \<and>
   cleanHtml example_render white_space_names_doc [tag_sel ''article''] =
     ''<p x onclick="alert(1)" y data-track="1">t</p>''\<close>
  by code_simp

section \<open>Lazy-loaded images in the cleaner\<close>

lemma removeAttr_subset: "set (removeAttr n a) \<subseteq> set a"
  by (auto simp: removeAttr_def)

lemma fold_shrinks:
  assumes "\<And>n acc. set (f n acc) \<subseteq> set acc"
  shows "set (fold f names a) \<subseteq> set a"
proof (induction names arbitrary: a)
  case Nil
  show ?case by simp
next
  case (Cons n names)
  from Cons.IH[of "f n a"] assms[of n a] show ?case by auto
qed

lemma strip_tracking_subset: "set (strip_tracking a) \<subseteq> set a"
  unfolding strip_tracking_def
  by (rule fold_shrinks) (auto simp: Let_def removeAttr_def)

lemma keep_only_subset: "set (keep_only allowed a) \<subseteq> set a"
  unfolding keep_only_def
  by (rule fold_shrinks) (auto simp: removeAttr_def)

lemma removeAttr_data_src: "''data-src'' \<notin> fst ` set (removeAttr ''data-src'' a)"
proof -
  have "splitNames ''data-src'' = [''data-src'']" by code_simp
  then show ?thesis by (auto simp: removeAttr_def)
qed

lemma strip_tracking_data_src: "''data-src'' \<notin> fst ` set (strip_tracking a)"
proof -
  define step where "step = (\<lambda>name acc.
             (let acc1 = (if startsWith name ''data-'' \<and> name \<noteq> ''data-testid''
                          then removeAttr name acc else acc)
              in if startsWith name ''aria-'' \<or> startsWith name ''on''
                 then removeAttr name acc1 else acc1))"
  have sub: "set (step n acc) \<subseteq> set acc" for n acc
    unfolding step_def by (auto simp: Let_def removeAttr_def)
  have p: "startsWith ''data-src'' ''data-'' \<and> ''data-src'' \<noteq> ''data-testid''" by code_simp
  have here: "''data-src'' \<notin> fst ` set (step ''data-src'' acc)" for acc
  proof -
    from p have "set (step ''data-src'' acc) \<subseteq> set (removeAttr ''data-src'' acc)"
      unfolding step_def by (auto simp: Let_def removeAttr_def)
    with removeAttr_data_src[of acc] show ?thesis by blast
  qed
  have gone: "''data-src'' \<notin> fst ` set (fold step names acc)"
    if "''data-src'' \<in> set names \<or> ''data-src'' \<notin> fst ` set acc" for names acc
    using that
  proof (induction names arbitrary: acc)
    case Nil
    then show ?case by simp
  next
    case (Cons n names)
    show ?case
    proof (cases "n = ''data-src''")
      case True
      from Cons.IH[of "step n acc"] here[of acc] True show ?thesis by simp
    next
      case False
      with Cons.prems have "''data-src'' \<in> set names \<or> ''data-src'' \<notin> fst ` set acc" by simp
      with sub[of n acc] have "''data-src'' \<in> set names \<or> ''data-src'' \<notin> fst ` set (step n acc)"
        by blast
      from Cons.IH[OF this] show ?thesis by simp
    qed
  qed
  have "''data-src'' \<in> set (map fst a) \<or> ''data-src'' \<notin> fst ` set a" by auto
  from gone[OF this] show ?thesis by (simp add: strip_tracking_def step_def)
qed

lemma map_of_None_subset:
  "set b \<subseteq> set a \<Longrightarrow> map_of a k = None \<Longrightarrow> map_of b k = None"
  by (auto simp: map_of_eq_None_iff)

lemma map_of_setAttr: "map_of (setAttr n v a) k = (if k = n then Some v else map_of a k)"
proof (cases "map_of a n")
  case None
  then show ?thesis by (auto simp: setAttr_def map_add_def split: option.splits)
next
  case (Some w)
  have "map_of (map (\<lambda>kv. if fst kv = n then (n, v) else kv) a) k =
        (if k = n then (if map_of a n = None then None else Some v) else map_of a k)"
    by (induction a) auto
  with Some show ?thesis by (simp add: setAttr_def)
qed

text \<open>
  The first loop of \<open>cleanAttributes\<close> has removed \<open>data-src\<close> by the time the image branch
  reads it: an image without \<open>src\<close> leaves the cleaner without \<open>src\<close>, whatever its
  \<open>data-src\<close> was.
\<close>

lemma lazy_image_gets_no_src:
  assumes "tag_name el = ''img''" "attr el ''src'' = None"
  shows "map_of (clean_element el) ''src'' = None"
proof -
  let ?a1 = "strip_tracking (attribs_of el)"
  from assms(1) have tag: "is_tag el" "tag_name el \<noteq> ''a''" by (simp_all add: is_tag_def)
  from assms(2) have 1: "map_of ?a1 ''src'' = None"
    using map_of_None_subset[OF strip_tracking_subset] by (simp add: attr_def)
  have 2: "map_of ?a1 ''data-src'' = None"
    using strip_tracking_data_src[of "attribs_of el"] by (simp add: map_of_eq_None_iff)
  from 1 have 3: "map_of (keep_only [''src'', ''alt''] ?a1) ''src'' = None"
    using map_of_None_subset[OF keep_only_subset] by blast
  have "map_of (clean_image ?a1) ''src'' = None"
    by (simp add: clean_image_def Let_def 1 2 3 js_or_def truthy_def map_of_setAttr)
  with tag assms(1) show ?thesis by (simp add: clean_element_def Let_def)
qed

text \<open>
  C10, at an article whose image has \<open>data-src\<close> and no \<open>src\<close>: \<open>extractImages\<close> takes the
  image by its \<open>data-src\<close>, and the cleaned markup has the image with its \<open>alt\<close> only.
\<close>

theorem cleanHtml_loses_lazy_source:
  \<open>extractImages lazy_doc [tag_sel ''article''] =
     [\<lparr>image_url = ''https://example.com/lazy.jpg'', image_alt = Some ''Lazy image''\<rparr>] \<and>
   map (\<lambda>e. (tag_name e, attribs_of e)) (output_elements lazy_doc [tag_sel ''article'']) =
     [(''p'', []), (''img'', [(''alt'', ''Lazy image'')])] \<and>
   cleanHtml example_render lazy_doc [tag_sel ''article''] = ''<p>Text</p><img alt="Lazy image">''\<close>
  by code_simp

section \<open>Tags\<close>

lemma fold_add_tag:
  "fold add_tag els (acc, seen) =
     (acc @ keep_first (\<lambda>t. t)
              (filter (\<lambda>t. (t \<noteq> [] \<and> length t < 50) \<and> t \<notin> seen) (map tag_text els)),
      seen \<union> {t \<in> tag_text ` set els. t \<noteq> [] \<and> length t < 50})"
proof (induction els arbitrary: acc seen)
  case Nil
  show ?case by simp
next
  case (Cons e es)
  let ?t = "tag_text e"
  let ?P = "\<lambda>seen t. (t \<noteq> [] \<and> length t < 50) \<and> t \<notin> seen"
  show ?case
  proof (cases "?P seen ?t")
    case True
    have f: "filter (\<lambda>y. y \<noteq> ?t) (filter (?P seen) (map tag_text es)) =
             filter (?P (insert ?t seen)) (map tag_text es)"
      by (auto intro: filter_cong)
    have "filter (?P seen) (map tag_text (e # es)) = ?t # filter (?P seen) (map tag_text es)"
      using True by simp
    then have kf: "keep_first (\<lambda>t. t) (filter (?P seen) (map tag_text (e # es))) =
        ?t # keep_first (\<lambda>t. t) (filter (?P (insert ?t seen)) (map tag_text es))"
      by (simp only: keep_first.simps f)
    have step: "add_tag e (acc, seen) = (acc @ [?t], insert ?t seen)"
      using True by (simp add: add_tag_def Let_def tag_text_def)
    have "fold add_tag (e # es) (acc, seen) = fold add_tag es (acc @ [?t], insert ?t seen)"
      by (simp add: step)
    also have "\<dots> = ((acc @ [?t]) @ keep_first (\<lambda>t. t) (filter (?P (insert ?t seen)) (map tag_text es)),
          insert ?t seen \<union> {t \<in> tag_text ` set es. t \<noteq> [] \<and> length t < 50})"
      by (rule Cons.IH)
    also have "\<dots> = (acc @ keep_first (\<lambda>t. t) (filter (?P seen) (map tag_text (e # es))),
          seen \<union> {t \<in> tag_text ` set (e # es). t \<noteq> [] \<and> length t < 50})"
      unfolding kf using True by auto
    finally show ?thesis .
  next
    case False
    then have step: "add_tag e (acc, seen) = (acc, seen)"
      by (auto simp: add_tag_def Let_def tag_text_def)
    have "fold add_tag (e # es) (acc, seen) = fold add_tag es (acc, seen)"
      by (simp add: step)
    also have "\<dots> = (acc @ keep_first (\<lambda>t. t) (filter (?P seen) (map tag_text es)),
          seen \<union> {t \<in> tag_text ` set es. t \<noteq> [] \<and> length t < 50})"
      by (rule Cons.IH)
    also have "\<dots> = (acc @ keep_first (\<lambda>t. t) (filter (?P seen) (map tag_text (e # es))),
          seen \<union> {t \<in> tag_text ` set (e # es). t \<noteq> [] \<and> length t < 50})"
      using False by auto
    finally show ?thesis .
  qed
qed

lemma extract_tags_in_order: "extract_tags doc = tags_in_order doc"
proof -
  have "fold (\<lambda>sel st. fold add_tag (select sel doc) st) sels st =
        fold add_tag (concat (map (\<lambda>sel. select sel doc) sels)) st" for sels st
    by (induction sels arbitrary: st) simp_all
  then show ?thesis
    by (simp add: extract_tags_def tags_in_order_def fold_add_tag)
qed

lemma tags_in_order_props:
  "distinct (tags_in_order doc) \<and>
   (\<forall>t \<in> set (tags_in_order doc). t \<noteq> [] \<and> length t < 50 \<and> toLowerCase t = t)"
proof -
  let ?xs = "filter (\<lambda>t. t \<noteq> [] \<and> length t < 50)
               (map tag_text (concat (map (\<lambda>sel. select sel doc) CSS_SELECTORS_tags)))"
  have d: "distinct (tags_in_order doc)"
    using keep_first_keys_distinct[of "\<lambda>t. t" ?xs] by (simp add: tags_in_order_def)
  have "t \<noteq> [] \<and> length t < 50 \<and> toLowerCase t = t" if "t \<in> set (tags_in_order doc)" for t
  proof -
    from that keep_first_subset[of "\<lambda>t. t" ?xs] have "t \<in> set ?xs"
      by (auto simp: tags_in_order_def)
    then show ?thesis by (auto simp: tag_text_def toLowerCase_idem)
  qed
  with d show ?thesis by blast
qed

section \<open>Downloaded images\<close>

lemma downloadImage_Some:
  assumes "fst (downloadImage enc nw log u) = Some uri"
  shows "\<exists>r bytes ct. nw (length log) u = Inr r \<and> ok r \<and> body r = Inr bytes \<and>
           length bytes \<le> MAX_IMAGE_SIZE_BYTES \<and> startsWith ct ''image/'' \<and>
           uri = ''data:'' @ ct @ '';base64,'' @ enc bytes"
  using assms
  by (auto simp: downloadImage_def downloadImage_try_def Let_def split: sum.splits if_splits)

lemma download_each_entries:
  "x \<in> set (fst (download_each enc nw log ds)) \<Longrightarrow>
   \<exists>lg u. base64 x = fst (downloadImage enc nw lg u)"
proof (induction ds arbitrary: log)
  case Nil
  then show ?case by simp
next
  case (Cons d ds)
  from Cons.prems have "x = \<lparr>originalUrl = image_url d,
        base64 = fst (downloadImage enc nw log (image_url d)), alt = image_alt d\<rparr> \<or>
      x \<in> set (fst (download_each enc nw (log @ [image_url d]) ds))"
    by (simp add: download_each_Cons del: download_each.simps(2))
  then show ?case
  proof
    assume "x = \<lparr>originalUrl = image_url d,
        base64 = fst (downloadImage enc nw log (image_url d)), alt = image_alt d\<rparr>"
    then have "base64 x = fst (downloadImage enc nw log (image_url d))" by simp
    then show ?thesis by blast
  next
    assume "x \<in> set (fst (download_each enc nw (log @ [image_url d]) ds))"
    from Cons.IH[OF this] show ?thesis .
  qed
qed

lemma downloadAllImages_embedded:
  assumes "x \<in> set (fst (downloadAllImages enc nw log ds))" "base64 x = Some uri"
  shows "\<exists>bytes ct. length bytes \<le> MAX_IMAGE_SIZE_BYTES \<and> startsWith ct ''image/'' \<and>
           uri = ''data:'' @ ct @ '';base64,'' @ enc bytes"
proof -
  from assms(1) download_each_entries obtain lg u
    where "base64 x = fst (downloadImage enc nw lg u)"
    unfolding downloadAllImages_def Let_def by blast
  with assms(2) downloadImage_Some[of enc nw lg u uri] show ?thesis by auto
qed

section \<open>The scraper as a whole\<close>

lemma scrapeArticle_success:
  assumes "scrapeArticle w u = (Inr a, log)"
  shows "\<exists>html m. validateMediumUrl (parseURL w) u = Inr () \<and>
     fst (fetchHtml (net w) [] u) = Inr html \<and>
     checkPaywall (load w html) = Inr () \<and>
     extractMetadata (load w html) u (now w) = Inr m \<and>
     cleanHtml (render w) (load w html) (pick_content_selector (load w html)) \<noteq> [] \<and>
     a = \<lparr>url = url m, title = title m, subtitle = subtitle m, author = author m,
          publishedDate = publishedDate m, readingTime = readingTime m, tags = tags m,
          content = cleanHtml (render w) (load w html) (pick_content_selector (load w html)),
          images = fst (downloadAllImages (toBase64 w) (net w) [u]
                     (extractImages (load w html) (pick_content_selector (load w html))))\<rparr>"
  using assms
  by (auto simp: scrapeArticle_def fetchHtml_def Let_def split: sum.splits prod.splits if_splits)

lemma example_scrape:
  "scrapeArticle example_world article_url =
     (Inr example_article,
      [''https://medium.com/@user/article-123'', ''https://cdn.example.com/good.png'',
       ''https://cdn.example.com/page.html''])"
  by code_simp

text \<open>
  C9. In an article the scraper returns there are at most 50 images; an image with a data URI
  carries the encoding of at most 5 MiB of bytes under an image content type; the content is
  not empty; and the tags, when present, are a non-empty list without duplicates, also up to
  case, of lower-case strings shorter than 50 characters, in the order of their first
  occurrence on the page.
\<close>

theorem scrapeArticle_invariants:
  assumes "scrapeArticle w u = (Inr a, log)"
  shows "length (images a) \<le> 50 \<and>
    (\<forall>x \<in> set (images a). \<forall>uri. base64 x = Some uri \<longrightarrow>
       (\<exists>bytes ct. length bytes \<le> 5 * 1024 * 1024 \<and> startsWith ct ''image/'' \<and>
          uri = ''data:'' @ ct @ '';base64,'' @ toBase64 w bytes)) \<and>
    content a \<noteq> [] \<and>
    (case tags a of
       None \<Rightarrow> True
     | Some ts \<Rightarrow>
         ts \<noteq> [] \<and> distinct ts \<and> distinct (map toLowerCase ts) \<and>
         (\<forall>t \<in> set ts. toLowerCase t = t \<and> length t < 50) \<and>
         (\<exists>html. fst (fetchHtml (net w) [] u) = Inr html \<and> ts = tags_in_order (load w html)))"
proof -
  from scrapeArticle_success[OF assms] obtain html m where
    f: "fst (fetchHtml (net w) [] u) = Inr html" and
    m: "extractMetadata (load w html) u (now w) = Inr m" and
    c: "cleanHtml (render w) (load w html) (pick_content_selector (load w html)) \<noteq> []" and
    a: "a = \<lparr>url = url m, title = title m, subtitle = subtitle m, author = author m,
          publishedDate = publishedDate m, readingTime = readingTime m, tags = tags m,
          content = cleanHtml (render w) (load w html) (pick_content_selector (load w html)),
          images = fst (downloadAllImages (toBase64 w) (net w) [u]
                     (extractImages (load w html) (pick_content_selector (load w html))))\<rparr>"
    by blast
  let ?ds = "extractImages (load w html) (pick_content_selector (load w html))"
  have 1: "length (images a) \<le> 50"
    unfolding a using downloadAllImages_length[of "toBase64 w" "net w" "[u]" ?ds]
    by simp
  have 2: "\<forall>x \<in> set (images a). \<forall>uri. base64 x = Some uri \<longrightarrow>
       (\<exists>bytes ct. length bytes \<le> 5 * 1024 * 1024 \<and> startsWith ct ''image/'' \<and>
          uri = ''data:'' @ ct @ '';base64,'' @ toBase64 w bytes)"
    unfolding a using downloadAllImages_embedded[of _ "toBase64 w" "net w" "[u]" ?ds]
    by (simp add: MAX_IMAGE_SIZE_BYTES_def)
  have 3: "content a \<noteq> []" unfolding a using c by simp
  from m have t: "tags a = (if length (tags_in_order (load w html)) > 0
                            then Some (tags_in_order (load w html)) else None)"
    unfolding a
    by (auto simp: extractMetadata_def Let_def extract_tags_in_order split: if_splits)
  have 4: "(case tags a of
       None \<Rightarrow> True
     | Some ts \<Rightarrow>
         ts \<noteq> [] \<and> distinct ts \<and> distinct (map toLowerCase ts) \<and>
         (\<forall>t \<in> set ts. toLowerCase t = t \<and> length t < 50) \<and>
         (\<exists>html. fst (fetchHtml (net w) [] u) = Inr html \<and> ts = tags_in_order (load w html)))"
  proof (cases "tags_in_order (load w html) = []")
    case True
    with t show ?thesis by simp
  next
    case False
    let ?ts = "tags_in_order (load w html)"
    from tags_in_order_props[of "load w html"] have d: "distinct ?ts"
      and p: "\<forall>t \<in> set ?ts. toLowerCase t = t \<and> length t < 50" by auto
    from p have "map toLowerCase ?ts = ?ts" by (simp add: map_idI)
    with d have "distinct (map toLowerCase ?ts)" by simp
    with False t d p f show ?thesis by auto
  qed
  from 1 2 3 4 show ?thesis by (intro conjI)
qed

theorem scrapeArticle_invariants_witness:
  "length (images example_article) \<le> 50 \<and> content example_article \<noteq> [] \<and>
   tags example_article = Some [''programming''] \<and>
   tags_in_order article_doc = [''programming''] \<and>
   extract_tags accented_tags_doc = [''caf'' @ [CHR 0xE9]]"
proof -
  from scrapeArticle_invariants[OF example_scrape]
  have a: "length (images example_article) \<le> 50" and b: "content example_article \<noteq> []"
    by blast+
  have c: "tags example_article = Some [''programming'']"
    by (simp add: example_article_def)
  have d: "tags_in_order article_doc = [''programming'']"
    by code_simp
  have e: "extract_tags accented_tags_doc = [''caf'' @ [CHR 0xE9]]"
    by code_simp
  from a b c d e show ?thesis by (intro conjI)
qed

text \<open>
  C1 as stated fails: the scraper hands the sanitized markup back as it is. In the example the
  first image was downloaded, its data URI is in \<open>images\<close>, and \<open>content\<close> still names the
  image by its remote URL.
\<close>

theorem scrapeArticle_substitution_counterexample:
  \<open>fst (scrapeArticle example_world article_url) = Inr example_article \<and>
   images example_article ! 0 =
     \<lparr>originalUrl = ''https://cdn.example.com/good.png'',
      base64 = Some ''data:image/png;base64,UE5HIQ=='', alt = Some ''Good''\<rparr> \<and>
   str_includes (content example_article) ''src="https://cdn.example.com/good.png"'' \<and>
   \<not> str_includes (content example_article) ''data:image/png;base64,UE5HIQ==''\<close>
proof -
  from example_scrape have a: "fst (scrapeArticle example_world article_url) = Inr example_article"
    by simp
  have b: \<open>images example_article ! 0 =
     \<lparr>originalUrl = ''https://cdn.example.com/good.png'',
      base64 = Some ''data:image/png;base64,UE5HIQ=='', alt = Some ''Good''\<rparr>\<close>
    by (simp add: example_article_def)
  have c: \<open>str_includes (content example_article) ''src="https://cdn.example.com/good.png"''\<close>
    by code_simp
  have d: \<open>\<not> str_includes (content example_article) ''data:image/png;base64,UE5HIQ==''\<close>
    by code_simp
  from a b c d show ?thesis by (intro conjI)
qed

lemma fetchHtml_first_request:
  "nw 0 u = nw' 0 u \<Longrightarrow> fetchHtml nw [] u = fetchHtml nw' [] u"
  by (simp add: fetchHtml_def)

lemma scrapeArticle_success_content:
  assumes "scrapeArticle w u = (Inr a, log)"
  shows "\<exists>html. fst (fetchHtml (net w) [] u) = Inr html \<and>
     content a = cleanHtml (render w) (load w html) (pick_content_selector (load w html))"
  using scrapeArticle_success[OF assms]
proof (elim exE conjE)
  fix html m
  assume f: "fst (fetchHtml (net w) [] u) = Inr html"
    and a: "a = \<lparr>url = url m, title = title m, subtitle = subtitle m, author = author m,
          publishedDate = publishedDate m, readingTime = readingTime m, tags = tags m,
          content = cleanHtml (render w) (load w html) (pick_content_selector (load w html)),
          images = fst (downloadAllImages (toBase64 w) (net w) [u]
                     (extractImages (load w html) (pick_content_selector (load w html))))\<rparr>"
  from a have "content a = cleanHtml (render w) (load w html) (pick_content_selector (load w html))"
    by simp
  with f show ?thesis by blast
qed

lemma fetchHtml_log: "snd (fetchHtml nw log u) = log @ [u]"
  by (simp add: fetchHtml_def)

text \<open>
  C1, amended. The content of a returned article is the cleaner's output for the fetched page
  at the content selector chosen on it, and the downloads have no part in it: the same call
  with the image requests coming to anything else, and with any other encoder, succeeds as well
  and returns the same article but for \<open>images\<close>. The scraper replaces no \<open>src\<close> by a data
  URI; the data URI of a downloaded image is reported in \<open>images\<close> only.
\<close>

theorem scrapeArticle_content_ignores_downloads:
  assumes "scrapeArticle w u = (Inr a, log)"
  shows "(\<exists>html.
            fst (fetchHtml (net w) [] u) = Inr html \<and>
            content a = cleanHtml (render w) (load w html) (pick_content_selector (load w html))) \<and>
         (\<forall>w'. parseURL w' = parseURL w \<and> load w' = load w \<and> render w' = render w \<and>
                now w' = now w \<and> net w' 0 u = net w 0 u \<longrightarrow>
              (\<exists>imgs. fst (scrapeArticle w' u) = Inr (a\<lparr>images := imgs\<rparr>)))"
proof -
  have other: "\<exists>imgs. fst (scrapeArticle w' u) = Inr (a\<lparr>images := imgs\<rparr>)"
    if same: "parseURL w' = parseURL w" "load w' = load w" "render w' = render w"
       "now w' = now w" "net w' 0 u = net w 0 u" for w'
    using scrapeArticle_success[OF assms]
  proof (elim exE conjE)
    fix html m
    assume v: "validateMediumUrl (parseURL w) u = Inr ()"
      and f: "fst (fetchHtml (net w) [] u) = Inr html"
      and p: "checkPaywall (load w html) = Inr ()"
      and m: "extractMetadata (load w html) u (now w) = Inr m"
      and c: "cleanHtml (render w) (load w html) (pick_content_selector (load w html)) \<noteq> []"
      and a: "a = \<lparr>url = url m, title = title m, subtitle = subtitle m, author = author m,
          publishedDate = publishedDate m, readingTime = readingTime m, tags = tags m,
          content = cleanHtml (render w) (load w html) (pick_content_selector (load w html)),
          images = fst (downloadAllImages (toBase64 w) (net w) [u]
                     (extractImages (load w html) (pick_content_selector (load w html))))\<rparr>"
    let ?ds = "extractImages (load w html) (pick_content_selector (load w html))"
    from fetchHtml_first_request[of "net w'" u "net w", OF same(5)] f fetchHtml_log[of "net w'" "[]" u]
    have f': "fetchHtml (net w') [] u = (Inr html, [u])"
      by (simp add: prod_eq_iff)
    from v same(1) have v': "validateMediumUrl (parseURL w') u = Inr ()" by simp
    have "fst (scrapeArticle w' u) =
        Inr \<lparr>url = url m, title = title m, subtitle = subtitle m, author = author m,
          publishedDate = publishedDate m, readingTime = readingTime m, tags = tags m,
          content = cleanHtml (render w) (load w html) (pick_content_selector (load w html)),
          images = fst (downloadAllImages (toBase64 w') (net w') [u] ?ds)\<rparr>"
      using p m c
      by (simp add: scrapeArticle_def v f' same(1-4) Let_def split: prod.splits)
    also have "\<dots> = Inr (a\<lparr>images := fst (downloadAllImages (toBase64 w') (net w') [u] ?ds)\<rparr>)"
      by (simp add: a)
    finally show ?thesis by blast
  qed
  from scrapeArticle_success_content[OF assms] other show ?thesis by blast
qed

theorem scrapeArticle_content_ignores_downloads_witness:
  "map_sum code content (fst (scrapeArticle offline_images_world article_url)) =
     Inr (content example_article) \<and>
   map_sum code (\<lambda>a. map base64 (images a)) (fst (scrapeArticle offline_images_world article_url)) =
     Inr [None, None] \<and>
   map base64 (images example_article) = [Some ''data:image/png;base64,UE5HIQ=='', None]"
proof -
  have same: "parseURL offline_images_world = parseURL example_world \<and>
      load offline_images_world = load example_world \<and>
      render offline_images_world = render example_world \<and>
      now offline_images_world = now example_world \<and>
      net offline_images_world 0 article_url = net example_world 0 article_url"
    by (simp add: offline_images_world_def example_world_def net_page_only_def net_article_def)
  from scrapeArticle_content_ignores_downloads[OF example_scrape] same
  obtain imgs where
    "fst (scrapeArticle offline_images_world article_url) = Inr (example_article\<lparr>images := imgs\<rparr>)"
    by blast
  then have a: "map_sum code content (fst (scrapeArticle offline_images_world article_url)) =
     Inr (content example_article)"
    by simp
  have b: "map_sum code (\<lambda>a. map base64 (images a))
             (fst (scrapeArticle offline_images_world article_url)) = Inr [None, None]"
    by code_simp
  have c: "map base64 (images example_article) = [Some ''data:image/png;base64,UE5HIQ=='', None]"
    by (simp add: example_article_def)
  from a b c show ?thesis by (intro conjI)
qed

end
